theory Spec2Isabelle
  imports Main
begin

text \<open>
  A model of \<open>rootpy/datasets.py\<close>: the function \<open>get_sample\<close>, which finds the
  directory of a sample under the data root, reads its metadata, and collects its files.
  What the function reads from outside (the file system, the parsed metadata document,
  the value of the weight expression) is a parameter; what it prints is returned with
  its outcome.
\<close>

section \<open>Strings\<close>

text \<open>
  Strings are byte strings (\<open>char list\<close>).  The case mapping of \<open>upper()\<close> is the
  ASCII one: the letters a-z go to A-Z, every other character is left as it is.
\<close>

definition newline :: char where
  "newline = CHR 0x0A"

definition is_digit :: "char \<Rightarrow> bool" where
  "is_digit c = (c \<in> set ''0123456789'')"

definition digit_val :: "char \<Rightarrow> nat" where
  "digit_val c = (of_char c :: nat) - 48"

text \<open>\<open>int(s)\<close> for a string of decimal digits.\<close>

definition int_of_digits :: "string \<Rightarrow> nat" where
  "int_of_digits s = foldl (\<lambda>n c. 10 * n + digit_val c) 0 s"

definition upper_char :: "char \<Rightarrow> char" where
  "upper_char c =
     (case map_of (zip ''abcdefghijklmnopqrstuvwxyz'' ''ABCDEFGHIJKLMNOPQRSTUVWXYZ'') c of
        Some u \<Rightarrow> u
      | None \<Rightarrow> c)"

definition upper :: "string \<Rightarrow> string" where
  "upper s = map upper_char s"

definition is_ascii :: "char \<Rightarrow> bool" where
  "is_ascii c = ((of_char c :: nat) < 128)"

text \<open>\<open>needle in s\<close>: \<open>needle\<close> occurs in \<open>s\<close> as a contiguous substring.\<close>

fun contains :: "string \<Rightarrow> string \<Rightarrow> bool" where
  "contains needle [] = (needle = [])"
| "contains needle (c # cs) =
     (take (length needle) (c # cs) = needle \<or> contains needle cs)"

section \<open>Paths (posixpath)\<close>

definition slash :: char where
  "slash = CHR ''/''"

text \<open>\<open>os.path.join(a, b)\<close>\<close>

definition path_join :: "string \<Rightarrow> string \<Rightarrow> string" where
  "path_join a b =
     (if take 1 b = [slash] then b
      else if a = [] \<or> take 1 (rev a) = [slash] then a @ b
      else a @ [slash] @ b)"

text \<open>\<open>os.path.basename(p)\<close>: what follows the last slash.\<close>

definition basename :: "string \<Rightarrow> string" where
  "basename p = rev (takeWhile (\<lambda>c. c \<noteq> slash) (rev p))"

text \<open>
  \<open>os.path.split(p)[0]\<close>: what precedes the basename, without its trailing slashes
  unless it consists of slashes only.
\<close>

definition dirname :: "string \<Rightarrow> string" where
  "dirname p =
     (let head = rev (dropWhile (\<lambda>c. c \<noteq> slash) (rev p))
      in if dropWhile (\<lambda>c. c = slash) head = [] then head
         else rev (dropWhile (\<lambda>c. c = slash) (rev head)))"

section \<open>Regular expressions (the constructs of \<open>datapattern\<close>)\<close>

datatype cclass =
    Digit         \<comment> \<open>\<open>[0-9]\<close>\<close>
  | NotDot        \<comment> \<open>\<open>[^.]\<close>\<close>
  | DigitHyphen   \<comment> \<open>\<open>[0-9\-]\<close>\<close>

fun in_class :: "cclass \<Rightarrow> char \<Rightarrow> bool" where
  "in_class Digit c = is_digit c"
| "in_class NotDot c = (c \<noteq> CHR ''.'')"
| "in_class DigitHyphen c = (is_digit c \<or> c = CHR ''-'')"

datatype regex =
    Eps                    \<comment> \<open>the empty pattern\<close>
  | Bol                    \<comment> \<open>\<open>^\<close>\<close>
  | Eol                    \<comment> \<open>\<open>$\<close>\<close>
  | Str string             \<comment> \<open>literal text\<close>
  | Any                    \<comment> \<open>\<open>.\<close>: any character but a newline\<close>
  | Plus cclass            \<comment> \<open>\<open>[...]+\<close>, greedy\<close>
  | Grp string regex       \<comment> \<open>\<open>(?P<name>...)\<close>\<close>
  | Seq regex regex
  | Alt regex regex        \<comment> \<open>\<open>a|b\<close>\<close>
  | Opt regex              \<comment> \<open>\<open>(?:...)?\<close>, greedy\<close>

text \<open>
  A state of the matcher: the number of characters consumed so far, the rest of the
  subject, and the groups captured so far (the latest capture of a name first).
\<close>

type_synonym groups = "(string \<times> string) list"
type_synonym mstate = "nat \<times> string \<times> groups"

text \<open>\<open>[...]+\<close> by backtracking: take one more character if possible, else stop here.\<close>

fun many1 :: "cclass \<Rightarrow> nat \<Rightarrow> string \<Rightarrow> groups \<Rightarrow> mstate list" where
  "many1 cls pos [] g = []"
| "many1 cls pos (c # cs) g =
     (if in_class cls c then many1 cls (Suc pos) cs g @ [(Suc pos, cs, g)] else [])"

text \<open>
  The backtracking matcher of \<open>re\<close>: all the ways the pattern matches at the state, in
  the order in which backtracking tries them.  The first is the match \<open>re\<close> reports.
\<close>

fun rmatch :: "regex \<Rightarrow> mstate \<Rightarrow> mstate list" where
  "rmatch Eps s = [s]"
| "rmatch Bol (pos, inp, g) = (if pos = 0 then [(pos, inp, g)] else [])"
| "rmatch Eol (pos, inp, g) = (if inp = [] \<or> inp = [newline] then [(pos, inp, g)] else [])"
| "rmatch (Str t) (pos, inp, g) =
     (if take (length t) inp = t then [(pos + length t, drop (length t) inp, g)] else [])"
| "rmatch Any (pos, inp, g) =
     (case inp of
        [] \<Rightarrow> []
      | c # cs \<Rightarrow> if c = newline then [] else [(Suc pos, cs, g)])"
| "rmatch (Plus cls) (pos, inp, g) = many1 cls pos inp g"
| "rmatch (Grp n r) (pos, inp, g) =
     map (\<lambda>(pos', inp', g'). (pos', inp', (n, take (pos' - pos) inp) # g'))
       (rmatch r (pos, inp, g))"
| "rmatch (Seq r1 r2) s = concat (map (rmatch r2) (rmatch r1 s))"
| "rmatch (Alt r1 r2) s = rmatch r1 s @ rmatch r2 s"
| "rmatch (Opt r) s = rmatch r s @ [s]"

text \<open>\<open>re.match(pattern, s)\<close>: the groups of the first match, or None.\<close>

definition re_match :: "regex \<Rightarrow> string \<Rightarrow> groups option" where
  "re_match r s =
     (case rmatch r (0, s, []) of
        [] \<Rightarrow> None
      | (pos, inp, g) # _ \<Rightarrow> Some g)"

text \<open>\<open>match.group(n)\<close>: None for a group that took no part in the match.\<close>

definition group :: "groups \<Rightarrow> string \<Rightarrow> string option" where
  "group g n = map_of g n"

definition cat :: "regex list \<Rightarrow> regex" where
  "cat rs = foldr Seq rs Eps"

text \<open>
  \<^verbatim>\<open>^group(?P<year>[0-9]+).(?P<group>[^.]+).(?P<run>[0-9]+).(?P<stream>[^.]+).\<close>
  \<^verbatim>\<open>(?P<tag>[^.]+).(?P<version>[0-9\-]+).D3PD(?:.(?P<edition>[0-9]+))?\<close>
  \<^verbatim>\<open>_StreamD3PD_Tau(?P<size>SMALL$|MEDIUM$)\<close>
\<close>

definition datapattern :: regex where
  "datapattern = cat
     [Bol, Str ''group'', Grp ''year'' (Plus Digit),
      Any, Grp ''group'' (Plus NotDot),
      Any, Grp ''run'' (Plus Digit),
      Any, Grp ''stream'' (Plus NotDot),
      Any, Grp ''tag'' (Plus NotDot),
      Any, Grp ''version'' (Plus DigitHyphen),
      Any, Str ''D3PD'',
      Opt (Seq Any (Grp ''edition'' (Plus Digit))),
      Str ''_StreamD3PD_Tau'',
      Grp ''size'' (Alt (Seq (Str ''SMALL'') Eol) (Seq (Str ''MEDIUM'') Eol))]"

section \<open>The tables of the module\<close>

record 'w Dataset =
  ds_name :: string
  ds_datatype :: nat
  ds_classtype :: nat
  ds_treename :: string
  ds_weight :: 'w
  ds_files :: "string list"

text \<open>
  The dictionaries are association lists in the order of the source.  The order in
  which a Python dictionary enumerates its keys is not that order; it only decides the
  order of some diagnostic lines, on which nothing below depends.
\<close>

definition classes :: "(string \<times> nat) list" where
  "classes = [(''BACKGROUND'', 0), (''SIGNAL'', 1)]"

definition types :: "(string \<times> nat) list" where
  "types = [(''DATA'', 0), (''MC'', 1)]"

text \<open>A period is \<open>xrange(lo, hi)\<close>, given as \<open>(lo, hi)\<close>.\<close>

definition data_periods :: "(string \<times> nat \<times> nat) list" where
  "data_periods =
     [(''AB'', 152166, 155161),
      (''C'', 155228, 156683),
      (''D'', 158045, 159225),
      (''E'', 160387, 161949),
      (''F'', 162347, 162883),
      (''G'', 165591, 166384),
      (''H'', 166466, 166965)]"

text \<open>\<open>n in xrange(lo, hi)\<close>\<close>

definition in_xrange :: "nat \<Rightarrow> nat \<times> nat \<Rightarrow> bool" where
  "in_xrange n r = (fst r \<le> n \<and> n < snd r)"

section \<open>The environment: file system, XML parser, evaluator\<close>

datatype pyexn =
    KeyError string
  | IndexError
  | AttributeError
  | TypeError
  | UnicodeEncodeError
  | ParseError        \<comment> \<open>whatever \<open>minidom.parse\<close> raises\<close>
  | EvalError         \<comment> \<open>whatever \<open>float(eval(...))\<close> raises\<close>

text \<open>
  A node of a parsed document: an element with its tag and children, or a node of
  another kind (text, comment, ...) with its \<open>nodeValue\<close>.
\<close>

datatype node =
    Element string "node list"
  | CharData string

text \<open>
  What the program reads from outside.  \<open>parse p\<close> is the outcome of
  \<open>minidom.parse(p)\<close>: an exception or the children of the document.  \<open>float_eval s\<close>
  is the outcome of \<open>float(eval(s))\<close>: an exception or the floating-point number, of
  a type \<open>'w\<close> that is left open.  \<open>glob_magic p\<close> is what \<open>glob.glob(p)\<close> returns for
  a pathname \<open>p\<close> whose directory part itself holds one of the characters \<open>*?[\<close>,
  which makes \<open>glob\<close> expand the directory part as a pattern too.
\<close>

record 'w env =
  dataroot :: string
  isdir :: "string \<Rightarrow> bool"
  isfile :: "string \<Rightarrow> bool"
  listdir :: "string \<Rightarrow> string list"
  glob_magic :: "string \<Rightarrow> string list"
  parse :: "string \<Rightarrow> pyexn + node list"
  float_eval :: "string \<Rightarrow> pyexn + 'w"

subsection \<open>glob\<close>

definition has_magic :: "string \<Rightarrow> bool" where
  "has_magic p = (filter (\<lambda>c. c \<in> set ''*?['') p \<noteq> [])"

text \<open>\<open>glob1\<close> drops the names that begin with a dot, as the pattern does not.\<close>

definition visible :: "string \<Rightarrow> bool" where
  "visible n = (take 1 n \<noteq> ''.'')"

text \<open>
  \<open>glob.glob(os.path.join(d, pat))\<close> for the two patterns of the program, \<open>*\<close> and
  \<open>*root*\<close>; \<open>sel\<close> says which names the pattern matches.  A directory that cannot be
  listed gives no name.
\<close>

definition glob :: "'w env \<Rightarrow> string \<Rightarrow> string \<Rightarrow> (string \<Rightarrow> bool) \<Rightarrow> string list" where
  "glob e d pat sel =
     (let pathname = path_join d pat; dir = dirname pathname
      in if has_magic dir then glob_magic e pathname
         else map (path_join dir)
                (filter sel (filter visible (if isdir e dir then listdir e dir else []))))"

definition glob_star :: "'w env \<Rightarrow> string \<Rightarrow> string list" where
  "glob_star e d = glob e d ''*'' (\<lambda>n. True)"

definition glob_root :: "'w env \<Rightarrow> string \<Rightarrow> string list" where
  "glob_root e d = glob e d ''*root*'' (contains ''root'')"

subsection \<open>The metadata document\<close>

text \<open>\<open>getElementsByTagName\<close>: the descendant elements with the tag, in document order.\<close>

fun node_elements :: "string \<Rightarrow> node \<Rightarrow> node list"
  and nodes_elements :: "string \<Rightarrow> node list \<Rightarrow> node list" where
  "node_elements t (CharData s) = []"
| "node_elements t (Element tg ch) =
     (if tg = t then [Element tg ch] else []) @ nodes_elements t ch"
| "nodes_elements t [] = []"
| "nodes_elements t (n # ns) = node_elements t n @ nodes_elements t ns"

fun childNodes :: "node \<Rightarrow> node list" where
  "childNodes (Element tg ch) = ch"
| "childNodes (CharData s) = []"

text \<open>\<open>nodeValue\<close> is None for an element.\<close>

fun nodeValue :: "node \<Rightarrow> string option" where
  "nodeValue (Element tg ch) = None"
| "nodeValue (CharData s) = Some s"

text \<open>\<open>xs[0]\<close>\<close>

definition item0 :: "'a list \<Rightarrow> pyexn + 'a" where
  "item0 xs = (case xs of x # _ \<Rightarrow> Inr x | [] \<Rightarrow> Inl IndexError)"

definition bind :: "pyexn + 'a \<Rightarrow> ('a \<Rightarrow> pyexn + 'b) \<Rightarrow> pyexn + 'b" where
  "bind m f = (case m of Inl e \<Rightarrow> Inl e | Inr x \<Rightarrow> f x)"

text \<open>\<open>m.getElementsByTagName(tag)[0].childNodes[0].nodeValue\<close>\<close>

definition field_value :: "node \<Rightarrow> string \<Rightarrow> pyexn + string option" where
  "field_value m tag =
     bind (item0 (nodes_elements tag (childNodes m))) (\<lambda>el.
     bind (item0 (childNodes el)) (\<lambda>c. Inr (nodeValue c)))"

text \<open>\<open>v.upper()\<close>\<close>

definition py_upper :: "string option \<Rightarrow> pyexn + string" where
  "py_upper v = (case v of None \<Rightarrow> Inl AttributeError | Some s \<Rightarrow> Inr (upper s))"

text \<open>\<open>str(v)\<close>, of None or of a unicode string\<close>

definition py_str :: "string option \<Rightarrow> pyexn + string" where
  "py_str v =
     (case v of
        None \<Rightarrow> Inr ''None''
      | Some s \<Rightarrow> if list_all is_ascii s then Inr s else Inl UnicodeEncodeError)"

text \<open>The body of the \<open>try\<close> block: the four values, or the exception raised.\<close>

definition read_meta :: "'w env \<Rightarrow> string \<Rightarrow> pyexn + (string \<times> string \<times> 'w \<times> string)" where
  "read_meta e metafile =
     bind (parse e metafile) (\<lambda>doc.
     bind (item0 (nodes_elements ''meta'' doc)) (\<lambda>m.
     bind (bind (field_value m ''type'') py_upper) (\<lambda>datatype.
     bind (bind (field_value m ''class'') py_upper) (\<lambda>classname.
     bind (bind (bind (field_value m ''weight'') py_str) (float_eval e)) (\<lambda>weight.
     bind (bind (field_value m ''tree'') py_str) (\<lambda>treename.
     Inr (datatype, classname, weight, treename)))))))"

section \<open>get\_sample\<close>

text \<open>What a call does: it returns a value (None or a Dataset) or raises.\<close>

datatype 'a outcome = Returned 'a | Raised pyexn

text \<open>The dictionary \<open>runs\<close>: run number to \<open>(edition, dir)\<close>.\<close>

type_synonym runs = "(nat \<times> nat \<times> string) list"

fun update :: "nat \<Rightarrow> nat \<times> string \<Rightarrow> runs \<Rightarrow> runs" where
  "update k v [] = [(k, v)]"
| "update k v (p # ps) = (if fst p = k then (k, v) # ps else p # update k v ps)"

text \<open>
  The loop over \<open>periods\<close> (lines 94-101): the lines printed, and None when the function
  returns None, else the value of \<open>isinperiod\<close>.
\<close>

fun period_scan :: "nat \<Rightarrow> string list \<Rightarrow> string list \<times> bool option" where
  "period_scan runnumber [] = ([], Some False)"
| "period_scan runnumber (period # rest) =
     (case map_of data_periods period of
        None \<Rightarrow> ([''Period '' @ period @ '' is not defined!''], None)
      | Some r \<Rightarrow>
          if in_xrange runnumber r then ([], Some True)
          else period_scan runnumber rest)"

definition period_filter :: "string list option \<Rightarrow> nat \<Rightarrow> string list \<times> bool option" where
  "period_filter periods runnumber =
     (case periods of
        None \<Rightarrow> ([], Some True)
      | Some ps \<Rightarrow> period_scan runnumber ps)"

datatype loop_result = Continue runs | ReturnNone | Raise pyexn

text \<open>
  The edition of a matched directory (lines 104-106): 0 unless the group \<open>edition\<close>
  took part in the match with a non-empty text.
\<close>

definition edition_of :: "groups \<Rightarrow> nat" where
  "edition_of g =
     (case group g ''edition'' of
        None \<Rightarrow> 0
      | Some es \<Rightarrow> if es = [] then 0 else int_of_digits es)"

text \<open>One iteration of the loop over \<open>actualdirs\<close> (lines 87-112).\<close>

definition data_step :: "string list option \<Rightarrow> runs \<Rightarrow> string \<Rightarrow> string list \<times> loop_result" where
  "data_step periods runs dir =
     (let datasetname = basename dir in
      case re_match datapattern datasetname of
        None \<Rightarrow>
          ([''Warning: directory '' @ datasetname @ '' is not a valid dataset name!''],
           Continue runs)
      | Some g \<Rightarrow>
          (case group g ''run'' of
             None \<Rightarrow> ([], Raise TypeError)
           | Some ds \<Rightarrow>
               (let runnumber = int_of_digits ds in
                case period_filter periods runnumber of
                  (out, None) \<Rightarrow> (out, ReturnNone)
                | (out, Some False) \<Rightarrow> (out, Continue runs)
                | (out, Some True) \<Rightarrow>
                    (let edition = edition_of g
                     in case map_of runs runnumber of
                          Some stored \<Rightarrow>
                            (out @ [''Warning: multiple editions of dataset '' @ datasetname
                                    @ '' exist!''],
                             Continue (if edition > fst stored
                                       then update runnumber (edition, dir) runs
                                       else runs))
                        | None \<Rightarrow>
                            (out, Continue (update runnumber (edition, dir) runs))))))"

fun data_loop :: "string list option \<Rightarrow> runs \<Rightarrow> string list \<Rightarrow> string list \<times> loop_result" where
  "data_loop periods runs [] = ([], Continue runs)"
| "data_loop periods runs (dir # dirs) =
     (case data_step periods runs dir of
        (out, Continue runs') \<Rightarrow>
          (case data_loop periods runs' dirs of (out', res) \<Rightarrow> (out @ out', res))
      | (out, ReturnNone) \<Rightarrow> (out, ReturnNone)
      | (out, Raise x) \<Rightarrow> (out, Raise x))"

text \<open>The lines printed for a key that a table does not have (lines 58-64, 68-74).\<close>

definition undefined_key :: "string \<Rightarrow> string \<Rightarrow> string \<Rightarrow> (string \<times> nat) list \<Rightarrow> string list" where
  "undefined_key what plural key table =
     [what @ '' '' @ key @ '' is not defined!''] @
     (if length table > 0 then ''Use one of these:'' # map fst table
      else [''No '' @ plural @ '' have been defined!''])"

text \<open>
  \<open>get_sample(name, periods)\<close>: the lines printed and the outcome.  \<open>periods\<close> is None
  or a list of labels.
\<close>

definition get_sample ::
  "'w env \<Rightarrow> string \<Rightarrow> string list option \<Rightarrow> string list \<times> 'w Dataset option outcome" where
  "get_sample e name periods =
     (let base = path_join (dataroot e) name in
      if \<not> isdir e base then
        ([''Sample '' @ name @ '' not found at '' @ base], Returned None)
      else
      let metafile = path_join base ''meta.xml'' in
      if \<not> isfile e metafile then
        ([''Metadata '' @ metafile @ '' not found!''], Returned None)
      else
      case read_meta e metafile of
        Inl x \<Rightarrow> ([''Could not parse metadata!''], Returned None)
      | Inr (datatype, classname, weight, treename) \<Rightarrow>
      (case map_of classes classname of
        None \<Rightarrow> (undefined_key ''Class'' ''classes'' classname classes, Returned None)
      | Some classtype \<Rightarrow>
      (case map_of types datatype of
        None \<Rightarrow>
          (undefined_key ''Datatype'' ''datatypes'' datatype types,
           Raised (KeyError datatype))
      | Some datatype' \<Rightarrow>
      (let dirs = glob_star e base;
           actualdirs = filter (isdir e) dirs
       in if Some datatype' = map_of types ''DATA'' then
            (case data_loop periods [] actualdirs of
               (out, Continue runs) \<Rightarrow>
                 (out,
                  Returned (Some \<lparr>ds_name =
                               (case periods of
                                  None \<Rightarrow> name
                                | Some ps \<Rightarrow>
                                    if ps = [] then name else name @ ''_'' @ concat ps),
                             ds_datatype = datatype', ds_classtype = classtype,
                             ds_treename = treename, ds_weight = weight,
                             ds_files = concat (map (\<lambda>(key, value). glob_root e (snd value)) runs)\<rparr>))
             | (out, ReturnNone) \<Rightarrow> (out, Returned None)
             | (out, Raise x) \<Rightarrow> (out, Raised x))
          else
            ([],
             Returned (Some \<lparr>ds_name = name,
                        ds_datatype = datatype', ds_classtype = classtype,
                        ds_treename = treename, ds_weight = weight,
                        ds_files = concat (map (glob_root e) actualdirs)\<rparr>))))))"

section \<open>Names used in the statements\<close>

text \<open>The values of the local variables \<open>base\<close>, \<open>metafile\<close> and \<open>actualdirs\<close>.\<close>

definition base_of :: "'w env \<Rightarrow> string \<Rightarrow> string" where
  "base_of e name = path_join (dataroot e) name"

definition metafile_of :: "'w env \<Rightarrow> string \<Rightarrow> string" where
  "metafile_of e name = path_join (base_of e name) ''meta.xml''"

definition actualdirs_of :: "'w env \<Rightarrow> string \<Rightarrow> string list" where
  "actualdirs_of e name = filter (isdir e) (glob_star e (base_of e name))"

text \<open>The value of \<open>samplename\<close> at the end of the DATA branch (lines 82, 115-116).\<close>

definition suffixed :: "string \<Rightarrow> string list option \<Rightarrow> string" where
  "suffixed name periods =
     (case periods of
        None \<Rightarrow> name
      | Some ps \<Rightarrow> if ps = [] then name else name @ ''_'' @ concat ps)"

text \<open>The diagnostic lines of the DATA branch.\<close>

definition invalid_name_warning :: "string \<Rightarrow> string" where
  "invalid_name_warning dir =
     ''Warning: directory '' @ basename dir @ '' is not a valid dataset name!''"

definition multiple_editions_warning :: "string \<Rightarrow> string" where
  "multiple_editions_warning dir =
     ''Warning: multiple editions of dataset '' @ basename dir @ '' exist!''"






text \<open>
  The directory that \<open>glob\<close> lists for the pattern \<open>base/*\<close> (the sample directory,
  without trailing slashes); the names a directory lists; the directories among the
  entries of the root whose names do not begin with a dot; and the entries of a
  directory whose names hold \<open>root\<close> and do not begin with a dot.
\<close>

definition sample_root :: "'w env \<Rightarrow> string \<Rightarrow> string" where
  "sample_root e name = dirname (path_join (base_of e name) ''*'')"

definition listing :: "'w env \<Rightarrow> string \<Rightarrow> string list" where
  "listing e d = (if isdir e d then listdir e d else [])"

definition visible_subdirs :: "'w env \<Rightarrow> string \<Rightarrow> string list" where
  "visible_subdirs e root =
     filter (isdir e) (map (path_join root) (filter visible (listing e root)))"

definition root_entries :: "'w env \<Rightarrow> string \<Rightarrow> string list" where
  "root_entries e d =
     map (path_join d) (filter (contains ''root'') (filter visible (listdir e d)))"

text \<open>A name as a directory lists it: not empty, no slash; and with none of \<open>*?[\<close>.\<close>

definition plain_name :: "string \<Rightarrow> bool" where
  "plain_name n = (n \<noteq> [] \<and> slash \<notin> set n \<and> \<not> has_magic n)"

text \<open>
  The run number and the edition of a directory that the loop of the DATA branch keeps
  (its name matches and its run passes the period filter); what an iteration that
  neither returns nor raises makes of \<open>runs\<close>; and the entry that the loop ends with
  for a run number: the first directory of the greatest edition among those kept for it.
\<close>

definition dir_info :: "string list option \<Rightarrow> string \<Rightarrow> (nat \<times> nat) option" where
  "dir_info periods dir =
     (case re_match datapattern (basename dir) of
        None \<Rightarrow> None
      | Some g \<Rightarrow>
          (case group g ''run'' of
             None \<Rightarrow> None
           | Some ds \<Rightarrow>
               if snd (period_filter periods (int_of_digits ds)) = Some True
               then Some (int_of_digits ds, edition_of g)
               else None))"

definition keep :: "string list option \<Rightarrow> runs \<Rightarrow> string \<Rightarrow> runs" where
  "keep periods runs dir =
     (case dir_info periods dir of
        None \<Rightarrow> runs
      | Some (r, ed) \<Rightarrow>
          (case map_of runs r of
             Some stored \<Rightarrow> if fst stored < ed then update r (ed, dir) runs else runs
           | None \<Rightarrow> update r (ed, dir) runs))"

definition first_greatest :: "string list option \<Rightarrow> string list \<Rightarrow> nat \<Rightarrow> nat \<Rightarrow> string \<Rightarrow> bool" where
  "first_greatest periods dirs r e d =
     (\<exists>pre post. dirs = pre @ d # post \<and> dir_info periods d = Some (r, e) \<and>
        (\<forall>d' \<in> set pre. \<forall>e'. dir_info periods d' = Some (r, e') \<longrightarrow> e' < e) \<and>
        (\<forall>d' \<in> set post. \<forall>e'. dir_info periods d' = Some (r, e') \<longrightarrow> e' \<le> e))"

subsection \<open>Which groups a pattern sets\<close>

text \<open>\<open>binds r n\<close>: every match of \<open>r\<close> sets the group \<open>n\<close>.\<close>

fun binds :: "regex \<Rightarrow> string \<Rightarrow> bool" where
  "binds (Grp m r) n = (m = n \<or> binds r n)"
| "binds (Seq r1 r2) n = (binds r1 n \<or> binds r2 n)"
| "binds (Alt r1 r2) n = (binds r1 n \<and> binds r2 n)"
| "binds r n = False"

text \<open>\<open>grp_class r n cls\<close>: wherever \<open>r\<close> has a group \<open>n\<close>, its body is \<open>[cls]+\<close>.\<close>

fun grp_class :: "regex \<Rightarrow> string \<Rightarrow> cclass \<Rightarrow> bool" where
  "grp_class (Grp m r) n cls = (if m = n then r = Plus cls else grp_class r n cls)"
| "grp_class (Seq r1 r2) n cls = (grp_class r1 n cls \<and> grp_class r2 n cls)"
| "grp_class (Alt r1 r2) n cls = (grp_class r1 n cls \<and> grp_class r2 n cls)"
| "grp_class (Opt r) n cls = grp_class r n cls"
| "grp_class r n cls = True"

subsection \<open>What a pattern matches\<close>

text \<open>
  \<open>lang r b w f\<close>: the pattern \<open>r\<close> matches the word \<open>w\<close> when \<open>f\<close> is what follows
  it in the subject; \<open>b\<close> says that \<open>w\<close> begins the subject.
\<close>

fun lang :: "regex \<Rightarrow> bool \<Rightarrow> string \<Rightarrow> string \<Rightarrow> bool" where
  "lang Eps b w f = (w = [])"
| "lang Bol b w f = (b \<and> w = [])"
| "lang Eol b w f = (w = [] \<and> (f = [] \<or> f = [newline]))"
| "lang (Str t) b w f = (w = t)"
| "lang Any b w f = (\<exists>c. w = [c] \<and> c \<noteq> newline)"
| "lang (Plus cls) b w f = (w \<noteq> [] \<and> list_all (in_class cls) w)"
| "lang (Grp n r) b w f = lang r b w f"
| "lang (Seq r1 r2) b w f =
     (\<exists>u v. w = u @ v \<and> lang r1 b u (v @ f) \<and> lang r2 (b \<and> u = []) v f)"
| "lang (Alt r1 r2) b w f = (lang r1 b w f \<or> lang r2 b w f)"
| "lang (Opt r) b w f = (w = [] \<or> lang r b w f)"

text \<open>
  The names that \<open>datapattern\<close> accepts, spelled out.  A field is a non-empty run of
  characters of a class; the separators are single characters other than a newline; the
  edition suffix is absent or a separator and digits; after the size a single newline
  may follow.
\<close>

definition field :: "cclass \<Rightarrow> string \<Rightarrow> bool" where
  "field cls w = (w \<noteq> [] \<and> list_all (in_class cls) w)"

definition edition_suffix :: "string \<Rightarrow> bool" where
  "edition_suffix ed = (ed = [] \<or> (\<exists>c e. ed = c # e \<and> c \<noteq> newline \<and> field Digit e))"

definition data_grammar :: "string \<Rightarrow> bool" where
  "data_grammar s =
     (\<exists>year c1 grp c2 run c3 stream c4 tag c5 version c6 ed size tl.
        s = ''group'' @ year @ [c1] @ grp @ [c2] @ run @ [c3] @ stream @ [c4] @ tag @ [c5]
              @ version @ [c6] @ ''D3PD'' @ ed @ ''_StreamD3PD_Tau'' @ size @ tl \<and>
        field Digit year \<and> field NotDot grp \<and> field Digit run \<and> field NotDot stream \<and>
        field NotDot tag \<and> field DigitHyphen version \<and>
        c1 \<noteq> newline \<and> c2 \<noteq> newline \<and> c3 \<noteq> newline \<and> c4 \<noteq> newline \<and>
        c5 \<noteq> newline \<and> c6 \<noteq> newline \<and>
        edition_suffix ed \<and>
        (size = ''SMALL'' \<or> size = ''MEDIUM'') \<and> (tl = [] \<or> tl = [newline]))"

text \<open>
  The template as the specification words it:
  \<^verbatim>\<open>group<year>.<group>.<run>.<stream>.<tag>.<version>.D3PD[.<edition>]_StreamD3PDTau(SMALL|MEDIUM)\<close>
  anchored at the end of the string, with literal dots and the fields of the classes
  of the source.
\<close>

definition spec_data_grammar :: "string \<Rightarrow> bool" where
  "spec_data_grammar s =
     (\<exists>year grp run stream tag version ed size.
        s = ''group'' @ year @ ''.'' @ grp @ ''.'' @ run @ ''.'' @ stream @ ''.'' @ tag @ ''.''
              @ version @ ''.D3PD'' @ ed @ ''_StreamD3PDTau'' @ size \<and>
        field Digit year \<and> field NotDot grp \<and> field Digit run \<and> field NotDot stream \<and>
        field NotDot tag \<and> field DigitHyphen version \<and>
        (ed = [] \<or> (\<exists>e. ed = ''.'' @ e \<and> field Digit e)) \<and>
        (size = ''SMALL'' \<or> size = ''MEDIUM''))"

subsection \<open>An example sample directory\<close>

text \<open>
  A metadata document with the four fields, and a data root \<open>/data\<close> that holds one
  sample \<open>s\<close> with the given document and the given subdirectories, each with the
  names it lists.  The evaluator knows the one weight \<open>1\<close>.
\<close>

definition meta_doc :: "string \<Rightarrow> string \<Rightarrow> string \<Rightarrow> string \<Rightarrow> node list" where
  "meta_doc ty cl w t =
     [Element ''meta''
        [Element ''type'' [CharData ty], Element ''class'' [CharData cl],
         Element ''weight'' [CharData w], Element ''tree'' [CharData t]]]"

definition example_env :: "node list \<Rightarrow> (string \<times> string list) list \<Rightarrow> nat env" where
  "example_env doc subdirs =
     \<lparr>dataroot = ''/data'',
      isdir = (\<lambda>p. p = ''/data/s'' \<or>
                   map_of (map (\<lambda>(d, fs). (''/data/s/'' @ d, fs)) subdirs) p \<noteq> None),
      isfile = (\<lambda>p. p = ''/data/s/meta.xml''),
      listdir = (\<lambda>p. if p = ''/data/s'' then ''meta.xml'' # map fst subdirs
                     else case map_of (map (\<lambda>(d, fs). (''/data/s/'' @ d, fs)) subdirs) p of
                            Some fs \<Rightarrow> fs
                          | None \<Rightarrow> []),
      glob_magic = (\<lambda>p. []),
      parse = (\<lambda>p. if p = ''/data/s/meta.xml'' then Inr doc else Inl ParseError),
      float_eval = (\<lambda>s. if s = ''1'' then Inr 1 else Inl EvalError)\<rparr>"

definition subdir :: "string \<Rightarrow> string" where
  "subdir n = ''/data/s/'' @ n"

definition run153000 :: string where
  "run153000 = ''group1.a.153000.s.t.1.D3PD_StreamD3PD_TauSMALL''"

definition run153000_edition2 :: string where
  "run153000_edition2 = ''group1.a.153000.s.t.1.D3PD.2_StreamD3PD_TauSMALL''"

definition name_as_specified :: string where
  "name_as_specified = ''group1.a.153000.s.t.1.D3PD_StreamD3PDTauSMALL''"

definition name_with_hyphens :: string where
  "name_with_hyphens = ''group1-a-153000-s-t-1-D3PD_StreamD3PD_TauSMALL''"


section \<open>The matcher\<close>

lemma many1_consumes:
  "(p', i', g') \<in> set (many1 cls p i g) \<Longrightarrow>
     g' = g \<and> (\<exists>w. w \<noteq> [] \<and> list_all (in_class cls) w \<and> i = w @ i' \<and> p' = p + length w)"
proof (induction i arbitrary: p)
  case Nil
  then show ?case by simp
next
  case (Cons c cs)
  show ?case
  proof (cases "in_class cls c")
    case False
    with Cons.prems show ?thesis by simp
  next
    case True
    with Cons.prems consider "(p', i', g') \<in> set (many1 cls (Suc p) cs g)" | "(p', i', g') = (Suc p, cs, g)"
      by auto
    then show ?thesis
    proof cases
      case 1
      from Cons.IH [OF 1] obtain w where "g' = g" "w \<noteq> []" "list_all (in_class cls) w" "cs = w @ i'" "p' = Suc p + length w"
        by blast
      with True have "c # w \<noteq> [] \<and> list_all (in_class cls) (c # w) \<and> c # cs = (c # w) @ i' \<and> p' = p + length (c # w)"
        by simp
      with \<open>g' = g\<close> show ?thesis by blast
    next
      case 2
      with True have "[c] \<noteq> [] \<and> list_all (in_class cls) [c] \<and> c # cs = [c] @ i' \<and> p' = p + length [c]"
        by simp
      with 2 show ?thesis by blast
    qed
  qed
qed

lemma rmatch_consumes:
  "(p', i', g') \<in> set (rmatch r (p, i, g)) \<Longrightarrow> \<exists>w. i = w @ i' \<and> p' = p + length w"
proof (induction r arbitrary: p i g p' i' g')
  case (Str t)
  then have "take (length t) i = t" "i' = drop (length t) i" "p' = p + length t"
    by (auto split: if_splits)
  then have "i = t @ i' \<and> p' = p + length t" by (metis append_take_drop_id)
  then show ?case by blast
next
  case Any
  then show ?case by (auto split: list.splits if_splits)
next
  case (Plus cls)
  then show ?case using many1_consumes by fastforce
next
  case (Seq r1 r2)
  then obtain p1 i1 g1 where a: "(p1, i1, g1) \<in> set (rmatch r1 (p, i, g))"
    and b: "(p', i', g') \<in> set (rmatch r2 (p1, i1, g1))" by auto
  from Seq.IH(1) [OF a] Seq.IH(2) [OF b] show ?case by auto
qed (auto split: if_splits)

lemma rmatch_keeps:
  "(p', i', g') \<in> set (rmatch r (p, i, g)) \<Longrightarrow> map_of g n = Some v \<Longrightarrow> \<exists>v'. map_of g' n = Some v'"
proof (induction r arbitrary: p i g p' i' g' v)
  case (Plus cls)
  then show ?case using many1_consumes by fastforce
next
  case (Seq r1 r2)
  then obtain p1 i1 g1 where a: "(p1, i1, g1) \<in> set (rmatch r1 (p, i, g))"
    and b: "(p', i', g') \<in> set (rmatch r2 (p1, i1, g1))" by auto
  from Seq.IH(1) [OF a Seq.prems(2)] obtain v1 where "map_of g1 n = Some v1" by blast
  from Seq.IH(2) [OF b this] show ?case .
next
  case (Grp m r)
  then show ?case by (auto split: if_splits)
next
  case Any
  then show ?case by (auto split: list.splits if_splits)
qed (auto split: if_splits)

lemma rmatch_binds:
  "binds r n \<Longrightarrow> (p', i', g') \<in> set (rmatch r (p, i, g)) \<Longrightarrow> \<exists>v. map_of g' n = Some v"
proof (induction r arbitrary: p i g p' i' g')
  case (Seq r1 r2)
  from Seq.prems(2) obtain p1 i1 g1 where a: "(p1, i1, g1) \<in> set (rmatch r1 (p, i, g))"
    and b: "(p', i', g') \<in> set (rmatch r2 (p1, i1, g1))" by auto
  show ?case
  proof (cases "binds r1 n")
    case True
    from Seq.IH(1) [OF True a] obtain v1 where "map_of g1 n = Some v1" by blast
    from rmatch_keeps [OF b this] show ?thesis .
  next
    case False
    with Seq.prems(1) have "binds r2 n" by simp
    from Seq.IH(2) [OF this b] show ?thesis .
  qed
next
  case (Grp m r)
  then show ?case by (auto split: if_splits)
next
  case (Alt r1 r2)
  then show ?case by auto
qed simp_all

lemma rmatch_grp_class:
  "grp_class r n cls \<Longrightarrow> (p', i', g') \<in> set (rmatch r (p, i, g)) \<Longrightarrow>
     (\<And>v. map_of g n = Some v \<Longrightarrow> v \<noteq> [] \<and> list_all (in_class cls) v) \<Longrightarrow>
     map_of g' n = Some v' \<Longrightarrow> v' \<noteq> [] \<and> list_all (in_class cls) v'"
proof (induction r arbitrary: p i g p' i' g' v')
  case (Plus c)
  from Plus.prems(2) many1_consumes [of p' i' g' c p i g] have "g' = g" by simp
  with Plus.prems(3) Plus.prems(4) show ?case by simp
next
  case (Seq r1 r2)
  from Seq.prems(2) obtain p1 i1 g1 where a: "(p1, i1, g1) \<in> set (rmatch r1 (p, i, g))"
    and b: "(p', i', g') \<in> set (rmatch r2 (p1, i1, g1))" by auto
  from Seq.prems(1) have c1: "grp_class r1 n cls" and c2: "grp_class r2 n cls" by simp_all
  have "\<And>v. map_of g1 n = Some v \<Longrightarrow> v \<noteq> [] \<and> list_all (in_class cls) v"
    using Seq.IH(1) [OF c1 a] Seq.prems(3) by blast
  from Seq.IH(2) [OF c2 b this Seq.prems(4)] show ?case .
next
  case (Grp m r)
  from Grp.prems(2) obtain g0 where a: "(p', i', g0) \<in> set (rmatch r (p, i, g))"
    and g': "g' = (m, take (p' - p) i) # g0" by auto
  show ?case
  proof (cases "m = n")
    case True
    with Grp.prems(1) have r: "r = Plus cls" by simp
    from a r many1_consumes [of p' i' g0 cls p i g]
    obtain w where "w \<noteq> []" "list_all (in_class cls) w" "i = w @ i'" "p' = p + length w"
      by auto
    with g' True Grp.prems(4) show ?thesis by simp
  next
    case False
    with Grp.prems(1) have c: "grp_class r n cls" by simp
    from False g' Grp.prems(4) have "map_of g0 n = Some v'" by simp
    from Grp.IH [OF c a Grp.prems(3) this] show ?thesis by simp
  qed
next
  case (Alt r1 r2)
  from Alt.prems(1) have c1: "grp_class r1 n cls" and c2: "grp_class r2 n cls" by simp_all
  from Alt.prems(2) consider "(p', i', g') \<in> set (rmatch r1 (p, i, g))"
    | "(p', i', g') \<in> set (rmatch r2 (p, i, g))" by auto
  then show ?case
  proof cases
    case 1
    from Alt.IH(1) [OF c1 1 Alt.prems(3) Alt.prems(4)] show ?thesis .
  next
    case 2
    from Alt.IH(2) [OF c2 2 Alt.prems(3) Alt.prems(4)] show ?thesis .
  qed
next
  case (Opt r)
  from Opt.prems(1) have c: "grp_class r n cls" by simp
  from Opt.prems(2) consider "(p', i', g') \<in> set (rmatch r (p, i, g))"
    | "(p', i', g') = (p, i, g)" by auto
  then show ?case
  proof cases
    case 1
    from Opt.IH [OF c 1 Opt.prems(3) Opt.prems(4)] show ?thesis .
  next
    case 2
    with Opt.prems(3) Opt.prems(4) show ?thesis by simp
  qed
next
  case Any
  from Any.prems(2) have "g' = g" by (auto split: list.splits if_splits)
  with Any.prems(3) Any.prems(4) show ?case by simp
next
  case Eps
  from Eps.prems(2) have "g' = g" by simp
  with Eps.prems(3) Eps.prems(4) show ?case by simp
next
  case Bol
  from Bol.prems(2) have "g' = g" by (simp split: if_splits)
  with Bol.prems(3) Bol.prems(4) show ?case by simp
next
  case Eol
  from Eol.prems(2) have "g' = g" by (simp split: if_splits)
  with Eol.prems(3) Eol.prems(4) show ?case by simp
next
  case (Str t)
  from Str.prems(2) have "g' = g" by (simp split: if_splits)
  with Str.prems(3) Str.prems(4) show ?case by simp
qed

lemma re_match_in_rmatch:
  "re_match r s = Some g \<Longrightarrow> \<exists>p i. (p, i, g) \<in> set (rmatch r (0, s, []))"
  by (auto simp: re_match_def split: list.splits)

lemma datapattern_run:
  assumes "re_match datapattern s = Some g"
  shows "\<exists>ds. group g ''run'' = Some ds \<and> ds \<noteq> [] \<and> list_all is_digit ds"
proof -
  from re_match_in_rmatch [OF assms] obtain p i where m: "(p, i, g) \<in> set (rmatch datapattern (0, s, []))"
    by blast
  have "binds datapattern ''run''" by (simp add: datapattern_def cat_def)
  from rmatch_binds [OF this m] obtain ds where ds: "map_of g ''run'' = Some ds" by blast
  have "grp_class datapattern ''run'' Digit" by (simp add: datapattern_def cat_def)
  from rmatch_grp_class [OF this m _ ds] have "ds \<noteq> [] \<and> list_all (in_class Digit) ds" by simp
  moreover have "in_class Digit = is_digit" by (rule ext) simp
  ultimately show ?thesis using ds by (simp add: group_def)
qed


lemma get_sample_classified:
  assumes "isdir e (base_of e name)"
    and "isfile e (metafile_of e name)"
    and "read_meta e (metafile_of e name) = Inr (datatype, classname, weight, treename)"
    and "map_of classes classname = Some classtype"
    and "map_of types datatype = Some code"
  shows "get_sample e name periods =
      (if code = 0 then
            (case data_loop periods [] (actualdirs_of e name) of
               (out, Continue runs) \<Rightarrow>
                 (out,
                  Returned (Some \<lparr>ds_name = suffixed name periods,
                             ds_datatype = code, ds_classtype = classtype,
                             ds_treename = treename, ds_weight = weight,
                             ds_files = concat (map (\<lambda>(key, value). glob_root e (snd value)) runs)\<rparr>))
             | (out, ReturnNone) \<Rightarrow> (out, Returned None)
             | (out, Raise x) \<Rightarrow> (out, Raised x))
          else
            ([],
             Returned (Some \<lparr>ds_name = name,
                        ds_datatype = code, ds_classtype = classtype,
                        ds_treename = treename, ds_weight = weight,
                        ds_files = concat (map (glob_root e) (actualdirs_of e name))\<rparr>)))"
  using assms
  by (simp add: get_sample_def Let_def types_def base_of_def metafile_of_def actualdirs_of_def suffixed_def
        split: prod.splits loop_result.splits)

lemma get_sample_unknown_type:
  assumes "isdir e (base_of e name)"
    and "isfile e (metafile_of e name)"
    and "read_meta e (metafile_of e name) = Inr (datatype, classname, weight, treename)"
    and "map_of classes classname = Some classtype"
    and "map_of types datatype = None"
  shows "get_sample e name periods =
      (undefined_key ''Datatype'' ''datatypes'' datatype types, Raised (KeyError datatype))"
  using assms
  by (simp add: get_sample_def Let_def base_of_def metafile_of_def)

lemma get_sample_meta_failure:
  assumes "isdir e (base_of e name)"
    and "isfile e (metafile_of e name)"
    and "read_meta e (metafile_of e name) = Inl x"
  shows "get_sample e name periods = ([''Could not parse metadata!''], Returned None)"
  using assms
  by (simp add: get_sample_def Let_def base_of_def metafile_of_def)

lemma get_sample_Returned_Some:
  assumes "get_sample e name periods = (out, Returned (Some d))"
  shows "\<exists>datatype classname weight treename classtype code.
           isdir e (base_of e name) \<and> isfile e (metafile_of e name) \<and>
           read_meta e (metafile_of e name) = Inr (datatype, classname, weight, treename) \<and>
           map_of classes classname = Some classtype \<and>
           map_of types datatype = Some code"
proof -
  from assms have 1: "isdir e (base_of e name)"
    by (auto simp: get_sample_def Let_def base_of_def split: if_splits)
  from assms 1 have 2: "isfile e (metafile_of e name)"
    by (auto simp: get_sample_def Let_def base_of_def metafile_of_def split: if_splits)
  obtain m where m: "read_meta e (metafile_of e name) = m" by blast
  show ?thesis
  proof (cases m)
    case (Inl x)
    with get_sample_meta_failure [OF 1 2] m assms show ?thesis by simp
  next
    case (Inr q)
    obtain dt classname weight treename where q: "q = (dt, classname, weight, treename)"
      by (cases q) auto
    note rm = m [unfolded Inr q]
    show ?thesis
    proof (cases "map_of classes classname")
      case None
      with assms 1 2 rm show ?thesis
        by (simp add: get_sample_def Let_def base_of_def metafile_of_def)
    next
      case (Some classtype)
      show ?thesis
      proof (cases "map_of types dt")
        case None
        from get_sample_unknown_type [OF 1 2 rm Some None] assms show ?thesis by simp
      next
        case (Some code)
        with 1 2 rm \<open>map_of classes classname = Some classtype\<close> show ?thesis by blast
      qed
    qed
  qed
qed

lemma data_step_nomatch:
  "re_match datapattern (basename dir) = None \<Longrightarrow>
     data_step periods runs dir = ([invalid_name_warning dir], Continue runs)"
  by (simp add: data_step_def invalid_name_warning_def)

lemma data_step_match:
  assumes "re_match datapattern (basename dir) = Some g"
  shows "\<exists>ds. group g ''run'' = Some ds \<and>
    data_step periods runs dir =
     (case period_filter periods (int_of_digits ds) of
        (out, None) \<Rightarrow> (out, ReturnNone)
      | (out, Some False) \<Rightarrow> (out, Continue runs)
      | (out, Some True) \<Rightarrow>
          (case map_of runs (int_of_digits ds) of
             Some stored \<Rightarrow>
               (out @ [multiple_editions_warning dir],
                Continue (if edition_of g > fst stored
                          then update (int_of_digits ds) (edition_of g, dir) runs
                          else runs))
           | None \<Rightarrow> (out, Continue (update (int_of_digits ds) (edition_of g, dir) runs))))"
proof -
  from datapattern_run [OF assms] obtain ds where ds: "group g ''run'' = Some ds" by blast
  with assms have "data_step periods runs dir =
     (case period_filter periods (int_of_digits ds) of
        (out, None) \<Rightarrow> (out, ReturnNone)
      | (out, Some False) \<Rightarrow> (out, Continue runs)
      | (out, Some True) \<Rightarrow>
          (case map_of runs (int_of_digits ds) of
             Some stored \<Rightarrow>
               (out @ [multiple_editions_warning dir],
                Continue (if edition_of g > fst stored
                          then update (int_of_digits ds) (edition_of g, dir) runs
                          else runs))
           | None \<Rightarrow> (out, Continue (update (int_of_digits ds) (edition_of g, dir) runs))))"
    by (simp add: data_step_def Let_def multiple_editions_warning_def
          split: prod.splits option.splits bool.splits)
  with ds show ?thesis by blast
qed

lemma data_step_no_raise: "data_step periods runs dir \<noteq> (out, Raise x)"
proof (cases "re_match datapattern (basename dir)")
  case None
  then show ?thesis by (simp add: data_step_nomatch)
next
  case (Some g)
  from data_step_match [OF Some, of periods runs] obtain ds where
    eq: "data_step periods runs dir =
     (case period_filter periods (int_of_digits ds) of
        (out, None) \<Rightarrow> (out, ReturnNone)
      | (out, Some False) \<Rightarrow> (out, Continue runs)
      | (out, Some True) \<Rightarrow>
          (case map_of runs (int_of_digits ds) of
             Some stored \<Rightarrow>
               (out @ [multiple_editions_warning dir],
                Continue (if edition_of g > fst stored
                          then update (int_of_digits ds) (edition_of g, dir) runs
                          else runs))
           | None \<Rightarrow> (out, Continue (update (int_of_digits ds) (edition_of g, dir) runs))))"
    by blast
  obtain o1 b where pf: "period_filter periods (int_of_digits ds) = (o1, b)"
    by (cases "period_filter periods (int_of_digits ds)")
  show ?thesis
  proof (cases b)
    case None
    with eq pf show ?thesis by simp
  next
    case (Some inperiod)
    with eq pf show ?thesis
      by (cases inperiod; cases "map_of runs (int_of_digits ds)") simp_all
  qed
qed

lemma data_loop_no_raise: "data_loop periods runs dirs \<noteq> (out, Raise x)"
proof (induction dirs arbitrary: runs out)
  case Nil
  then show ?case by simp
next
  case (Cons dir dirs)
  obtain o1 r1 where s: "data_step periods runs dir = (o1, r1)" by (cases "data_step periods runs dir")
  show ?case
  proof (cases r1)
    case (Continue runs')
    obtain o2 r2 where l: "data_loop periods runs' dirs = (o2, r2)"
      by (cases "data_loop periods runs' dirs")
    with Cons.IH [of runs' o2] have "r2 \<noteq> Raise x" by auto
    with s Continue l show ?thesis by simp
  next
    case ReturnNone
    with s show ?thesis by simp
  next
    case (Raise y)
    with s data_step_no_raise show ?thesis by blast
  qed
qed

lemma data_step_empty_periods:
  "data_step (Some []) runs dir =
     (if re_match datapattern (basename dir) = None then [invalid_name_warning dir] else [],
      Continue runs)"
proof (cases "re_match datapattern (basename dir)")
  case None
  then show ?thesis by (simp add: data_step_nomatch)
next
  case (Some g)
  from data_step_match [OF Some, of "Some []" runs] Some show ?thesis
    by (auto simp: period_filter_def)
qed

lemma data_loop_empty_periods:
  "data_loop (Some []) runs dirs =
     (map invalid_name_warning (filter (\<lambda>d. re_match datapattern (basename d) = None) dirs),
      Continue runs)"
  by (induction dirs) (simp_all add: data_step_empty_periods)

lemma bind_Inr: "bind (Inr x) f = f x"
  by (simp add: bind_def)







section \<open>The example directory, evaluated\<close>

lemma example_base: "base_of (example_env doc subdirs) ''s'' = ''/data/s''"
  by (simp add: base_of_def example_env_def path_join_def slash_def)

lemma example_metafile: "metafile_of (example_env doc subdirs) ''s'' = ''/data/s/meta.xml''"
  by (simp add: metafile_of_def example_base path_join_def slash_def)

lemma example_isdir: "isdir (example_env doc subdirs) (base_of (example_env doc subdirs) ''s'')"
  by (simp add: example_base) (simp add: example_env_def)

lemma example_isfile: "isfile (example_env doc subdirs) (metafile_of (example_env doc subdirs) ''s'')"
  by (simp add: example_metafile) (simp add: example_env_def)

lemma example_parse:
  "parse (example_env doc subdirs) (metafile_of (example_env doc subdirs) ''s'') = Inr doc"
  by (simp add: example_metafile) (simp add: example_env_def)

lemma example_field_values:
  "field_value (Element ''meta''
        [Element ''type'' [CharData ty], Element ''class'' [CharData cl],
         Element ''weight'' [CharData w], Element ''tree'' [CharData t]]) ''type'' = Inr (Some ty)"
  "field_value (Element ''meta''
        [Element ''type'' [CharData ty], Element ''class'' [CharData cl],
         Element ''weight'' [CharData w], Element ''tree'' [CharData t]]) ''class'' = Inr (Some cl)"
  "field_value (Element ''meta''
        [Element ''type'' [CharData ty], Element ''class'' [CharData cl],
         Element ''weight'' [CharData w], Element ''tree'' [CharData t]]) ''weight'' = Inr (Some w)"
  "field_value (Element ''meta''
        [Element ''type'' [CharData ty], Element ''class'' [CharData cl],
         Element ''weight'' [CharData w], Element ''tree'' [CharData t]]) ''tree'' = Inr (Some t)"
  by (simp_all add: field_value_def item0_def bind_def)

lemma example_read_meta:
  "read_meta (example_env (meta_doc ty cl ''1'' ''tau'') subdirs)
     (metafile_of (example_env (meta_doc ty cl ''1'' ''tau'') subdirs) ''s'')
   = Inr (upper ty, upper cl, 1, ''tau'')"
proof -
  have 1: "py_str (Some ''1'') = Inr ''1''" "py_str (Some ''tau'') = Inr ''tau''"
    by (simp_all add: py_str_def is_ascii_def)
  have 2: "\<And>doc. float_eval (example_env doc subdirs) ''1'' = Inr 1"
    by (simp add: example_env_def)
  show ?thesis
    by (simp add: read_meta_def example_parse)
       (simp add: meta_doc_def bind_Inr item0_def example_field_values py_upper_def 1 2)
qed

lemma upper_examples:
  "upper ''data'' = ''DATA''" "upper ''mc'' = ''MC''" "upper ''signal'' = ''SIGNAL''"
  "upper ''foo'' = ''FOO''"
  by (simp_all add: upper_def upper_char_def)

lemma example_glob_star:
  "glob_star (example_env doc subdirs) ''/data/s'' =
     map (path_join ''/data/s'') (filter visible (''meta.xml'' # map fst subdirs))"
proof -
  have 1: "path_join ''/data/s'' ''*'' = ''/data/s/*''" by (simp add: path_join_def slash_def)
  have 2: "dirname ''/data/s/*'' = ''/data/s''" by (simp add: dirname_def slash_def)
  have 3: "\<not> has_magic ''/data/s''" by (simp add: has_magic_def)
  show ?thesis by (simp add: glob_star_def glob_def 1 2 3 example_env_def)
qed

lemma example_no_subdirs: "actualdirs_of (example_env doc []) ''s'' = []"
  by (simp add: actualdirs_of_def example_base example_glob_star visible_def)
     (simp add: example_env_def path_join_def slash_def)

lemma run153000_match:
  "re_match datapattern run153000 =
     Some [(''size'', ''SMALL''), (''version'', ''1''), (''tag'', ''t''), (''stream'', ''s''),
           (''run'', ''153000''), (''group'', ''a''), (''year'', ''1'')]"
  by (simp add: run153000_def re_match_def datapattern_def cat_def is_digit_def newline_def)

lemma run153000_edition2_match:
  "re_match datapattern run153000_edition2 =
     Some [(''size'', ''SMALL''), (''edition'', ''2''), (''version'', ''1''), (''tag'', ''t''),
           (''stream'', ''s''), (''run'', ''153000''), (''group'', ''a''), (''year'', ''1'')]"
  by (simp add: run153000_edition2_def re_match_def datapattern_def cat_def is_digit_def newline_def)

lemma basename_join:
  assumes "slash \<notin> set n"
  shows "basename (subdir n) = n"
proof -
  from assms have a: "takeWhile (\<lambda>c. c \<noteq> CHR ''/'') (rev n) = rev n"
    by (auto simp: takeWhile_eq_all_conv slash_def)
  have b: "takeWhile (\<lambda>c. c \<noteq> CHR ''/'') (rev n @ ''/s/atad/'') =
      takeWhile (\<lambda>c. c \<noteq> CHR ''/'') (rev n)"
    by (rule takeWhile_tail) simp
  have "basename (subdir n) = rev (takeWhile (\<lambda>c. c \<noteq> CHR ''/'') (rev n @ ''/s/atad/''))"
    by (simp add: basename_def slash_def subdir_def)
  also have "\<dots> = rev (takeWhile (\<lambda>c. c \<noteq> CHR ''/'') (rev n))" by (simp only: b)
  also have "\<dots> = rev (rev n)" by (simp only: a)
  finally show ?thesis by simp
qed

lemma example_names:
  "slash \<notin> set run153000" "slash \<notin> set run153000_edition2"
  "visible run153000" "visible run153000_edition2"
  "take 1 run153000 \<noteq> [slash]" "take 1 run153000_edition2 \<noteq> [slash]"
  "run153000 \<noteq> run153000_edition2" "run153000_edition2 \<noteq> run153000"
  "''meta.xml'' \<noteq> run153000" "''meta.xml'' \<noteq> run153000_edition2"
  by (simp_all add: run153000_def run153000_edition2_def slash_def visible_def)

lemma path_join_subdir: "take 1 n \<noteq> [slash] \<Longrightarrow> path_join ''/data/s'' n = subdir n"
  by (simp add: path_join_def subdir_def slash_def)

lemma example_isdir_subdir:
  "isdir (example_env doc subdirs) (subdir n) = (n \<in> fst ` set subdirs)"
proof -
  have "(map_of (map (\<lambda>(d, fs). (''/data/s/'' @ d, fs)) subdirs) (''/data/s/'' @ n) \<noteq> None)
      = (n \<in> fst ` set subdirs)"
    by (induction subdirs) auto
  then show ?thesis by (simp add: example_env_def subdir_def)
qed

lemma example_listdir_subdir:
  "map_of subdirs n = Some fs \<Longrightarrow> listdir (example_env doc subdirs) (subdir n) = fs"
proof -
  assume a: "map_of subdirs n = Some fs"
  have "map_of (map (\<lambda>(d, fs). (''/data/s/'' @ d, fs)) subdirs) (''/data/s/'' @ n)
      = map_of subdirs n"
    by (induction subdirs) auto
  with a show ?thesis by (simp add: example_env_def subdir_def)
qed

lemma example_actualdirs:
  assumes "list_all (\<lambda>n. take 1 n \<noteq> [slash]) names"
  shows "filter (isdir (example_env doc subdirs)) (map (path_join ''/data/s'') names) =
     map subdir (filter (\<lambda>n. n \<in> fst ` set subdirs) names)"
  using assms by (induction names) (simp_all add: path_join_subdir example_isdir_subdir)

lemma example_actualdirs_of:
  assumes "list_all (\<lambda>n. take 1 n \<noteq> [slash]) (map fst subdirs)"
    and "list_all visible (map fst subdirs)"
    and "''meta.xml'' \<notin> fst ` set subdirs"
  shows "actualdirs_of (example_env doc subdirs) ''s'' = map subdir (map fst subdirs)"
proof -
  have "visible ''meta.xml''" by (simp add: visible_def)
  with assms(2) have v: "filter visible (''meta.xml'' # map fst subdirs) = ''meta.xml'' # map fst subdirs"
    by (simp add: list_all_iff)
  have "take 1 ''meta.xml'' \<noteq> [slash]" by (simp add: slash_def)
  with assms(1) have s: "list_all (\<lambda>n. take 1 n \<noteq> [slash]) (''meta.xml'' # map fst subdirs)"
    by simp
  have f: "filter (\<lambda>n. n \<in> fst ` set subdirs) (map fst subdirs) = map fst subdirs"
    by (simp add: filter_id_conv)
  have "actualdirs_of (example_env doc subdirs) ''s'' =
      filter (isdir (example_env doc subdirs))
        (map (path_join ''/data/s'') (''meta.xml'' # map fst subdirs))"
    by (simp only: actualdirs_of_def example_base example_glob_star v)
  also have "\<dots> = map subdir (filter (\<lambda>n. n \<in> fst ` set subdirs) (''meta.xml'' # map fst subdirs))"
    by (rule example_actualdirs [OF s])
  also have "\<dots> = map subdir (map fst subdirs)"
    using assms(3) f by simp
  finally show ?thesis .
qed

lemma example_one_subdir:
  "actualdirs_of (example_env doc [(run153000, fs)]) ''s'' = [subdir run153000]"
  using example_actualdirs_of [of "[(run153000, fs)]" doc] example_names by simp

lemma example_two_subdirs:
  "actualdirs_of (example_env doc [(run153000, fs), (run153000_edition2, fs')]) ''s'' =
     [subdir run153000, subdir run153000_edition2]"
  using example_actualdirs_of [of "[(run153000, fs), (run153000_edition2, fs')]" doc] example_names
  by simp


section \<open>glob on plain names\<close>

lemma dirname_join:
  assumes "d \<noteq> []" and "last d \<noteq> slash" and "slash \<notin> set pat"
  shows "path_join d pat = d @ [slash] @ pat" and "dirname (path_join d pat) = d"
proof -
  from assms(3) have p: "take 1 pat \<noteq> [slash]" by (cases pat) auto
  from assms(1) assms(2) have "take 1 (rev d) \<noteq> [slash]"
    by (cases d rule: rev_cases) auto
  with p assms(1) show j: "path_join d pat = d @ [slash] @ pat" by (simp add: path_join_def)
  have "dropWhile (\<lambda>c. c \<noteq> slash) (rev pat @ slash # rev d) =
      dropWhile (\<lambda>c. c \<noteq> slash) (slash # rev d)"
    by (rule dropWhile_append2) (use assms(3) in auto)
  then have "dropWhile (\<lambda>c. c \<noteq> slash) (rev pat @ slash # rev d) = slash # rev d"
    by simp
  then have h: "rev (dropWhile (\<lambda>c. c \<noteq> slash) (rev (d @ [slash] @ pat))) = d @ [slash]"
    by simp
  from assms(1) have "last d \<in> set d" by (rule last_in_set)
  with assms(2) have "\<not> (\<forall>x\<in>set (d @ [slash]). x = slash)" by auto
  then have n: "dropWhile (\<lambda>c. c = slash) (d @ [slash]) \<noteq> []"
    by (simp only: dropWhile_eq_Nil_conv) simp
  from assms(1) assms(2) have "dropWhile (\<lambda>c. c = slash) (rev d) = rev d"
    by (cases d rule: rev_cases) auto
  then have "rev (dropWhile (\<lambda>c. c = slash) (rev (d @ [slash]))) = d" by simp
  with h n show "dirname (path_join d pat) = d" by (simp add: dirname_def j Let_def)
qed


lemma contains_iff: "contains needle s \<longleftrightarrow> (\<exists>a b. s = a @ needle @ b)"
proof (induction s)
  case Nil
  then show ?case by auto
next
  case (Cons c cs)
  show ?case
  proof
    assume "contains needle (c # cs)"
    then consider "take (length needle) (c # cs) = needle" | "contains needle cs" by auto
    then show "\<exists>a b. c # cs = a @ needle @ b"
    proof cases
      case 1
      then have "c # cs = [] @ needle @ drop (length needle) (c # cs)"
        by (metis append_Nil append_take_drop_id)
      then show ?thesis by blast
    next
      case 2
      with Cons.IH obtain a b where "cs = a @ needle @ b" by blast
      then have "c # cs = (c # a) @ needle @ b" by simp
      then show ?thesis by blast
    qed
  next
    assume "\<exists>a b. c # cs = a @ needle @ b"
    then obtain a b where ab: "c # cs = a @ needle @ b" by blast
    show "contains needle (c # cs)"
    proof (cases a)
      case Nil
      with ab have "take (length needle) (c # cs) = needle" by simp
      then show ?thesis by simp
    next
      case (Cons x a')
      with ab have "cs = a' @ needle @ b" by simp
      with Cons.IH have "contains needle cs" by blast
      then show ?thesis by simp
    qed
  qed
qed

lemma has_magic_append: "has_magic (a @ b) = (has_magic a \<or> has_magic b)"
  by (simp add: has_magic_def)

lemma path_join_plain:
  assumes "plain_name n"
  shows "path_join root n \<noteq> []" and "last (path_join root n) \<noteq> slash"
    and "has_magic (path_join root n) = has_magic root"
proof -
  from assms have n: "n \<noteq> []" "slash \<notin> set n" "\<not> has_magic n" by (simp_all add: plain_name_def)
  then have t: "take 1 n \<noteq> [slash]" by (cases n) auto
  from n have l: "last n \<noteq> slash" using last_in_set by metis
  have m: "\<And>s. has_magic (slash # s) = has_magic s" by (simp add: has_magic_def slash_def)
  from t n show "path_join root n \<noteq> []" by (simp add: path_join_def)
  from t n l show "last (path_join root n) \<noteq> slash" by (simp add: path_join_def)
  from t n m show "has_magic (path_join root n) = has_magic root"
    by (simp add: path_join_def has_magic_append)
qed

lemma glob_star_plain:
  assumes "\<not> has_magic (sample_root e name)"
  shows "glob_star e (base_of e name) =
     map (path_join (sample_root e name)) (filter visible (listing e (sample_root e name)))"
  using assms by (simp add: glob_star_def glob_def sample_root_def listing_def Let_def)

lemma glob_root_plain:
  assumes "d \<noteq> []" and "last d \<noteq> slash" and "\<not> has_magic d" and "isdir e d"
  shows "glob_root e d = root_entries e d"
proof -
  have "slash \<notin> set ''*root*''" by (simp add: slash_def)
  from dirname_join(2) [OF assms(1) assms(2) this] assms(3) assms(4) show ?thesis
    by (simp add: glob_root_def glob_def root_entries_def Let_def)
qed

lemma actualdirs_plain:
  assumes "\<not> has_magic (sample_root e name)"
  shows "actualdirs_of e name = visible_subdirs e (sample_root e name)"
  by (simp add: actualdirs_of_def visible_subdirs_def glob_star_plain [OF assms])

lemma glob_root_visible_subdirs:
  assumes "\<not> has_magic root"
    and "list_all plain_name (listing e root)"
    and "d \<in> set (visible_subdirs e root)"
  shows "glob_root e d = root_entries e d"
proof -
  from assms(3) obtain n where n: "n \<in> set (listing e root)" and d: "d = path_join root n"
    and i: "isdir e d"
    by (auto simp: visible_subdirs_def)
  from assms(2) n have p: "plain_name n" by (simp add: list_all_iff)
  from path_join_plain [OF p, of root] assms(1) d i show ?thesis
    by (simp add: glob_root_plain)
qed


section \<open>The period filter\<close>







section \<open>More of the example directory\<close>

lemma example_sample_root: "sample_root (example_env doc subdirs) ''s'' = ''/data/s''"
proof -
  have "dirname ''/data/s/*'' = ''/data/s''" by (simp add: dirname_def slash_def)
  then show ?thesis by (simp add: sample_root_def example_base path_join_def slash_def)
qed

lemma example_listing_root:
  "listing (example_env doc subdirs) ''/data/s'' = ''meta.xml'' # map fst subdirs"
  by (simp add: listing_def example_env_def)

lemma example_glob_root:
  assumes "map_of subdirs n = Some fs" and "plain_name n"
  shows "glob_root (example_env doc subdirs) (subdir n) =
     map (path_join (subdir n)) (filter (contains ''root'') (filter visible fs))"
proof -
  from assms(2) have t: "take 1 n \<noteq> [slash]" by (cases n) (auto simp: plain_name_def)
  have m: "\<not> has_magic ''/data/s''" by (simp add: has_magic_def)
  from assms(1) have i: "isdir (example_env doc subdirs) (subdir n)"
    by (simp add: example_isdir_subdir) (metis map_of_SomeD fst_conv image_eqI)
  from path_join_plain [OF assms(2), of "''/data/s''"] m i
  have "glob_root (example_env doc subdirs) (subdir n) = root_entries (example_env doc subdirs) (subdir n)"
    by (simp add: path_join_subdir [OF t] glob_root_plain)
  with example_listdir_subdir [OF assms(1)] show ?thesis by (simp add: root_entries_def)
qed

lemma example_plain_names:
  "plain_name run153000" "plain_name run153000_edition2" "plain_name ''meta.xml''"
  "plain_name ''a''"
  by (simp_all add: plain_name_def run153000_def run153000_edition2_def slash_def has_magic_def)

lemma run_numbers: "int_of_digits ''153000'' = 153000" "int_of_digits ''2'' = 2"
  by (simp_all add: int_of_digits_def digit_val_def)

lemma example_editions:
  "edition_of [(''size'', ''SMALL''), (''version'', ''1''), (''tag'', ''t''), (''stream'', ''s''),
           (''run'', ''153000''), (''group'', ''a''), (''year'', ''1'')] = 0"
  "edition_of [(''size'', ''SMALL''), (''edition'', ''2''), (''version'', ''1''), (''tag'', ''t''),
           (''stream'', ''s''), (''run'', ''153000''), (''group'', ''a''), (''year'', ''1'')] = 2"
  by (simp_all add: edition_of_def group_def run_numbers)

lemma example_groups:
  "group [(''size'', ''SMALL''), (''version'', ''1''), (''tag'', ''t''), (''stream'', ''s''),
           (''run'', ''153000''), (''group'', ''a''), (''year'', ''1'')] ''run'' = Some ''153000''"
  "group [(''size'', ''SMALL''), (''edition'', ''2''), (''version'', ''1''), (''tag'', ''t''),
           (''stream'', ''s''), (''run'', ''153000''), (''group'', ''a''), (''year'', ''1'')] ''run''
     = Some ''153000''"
  by (simp_all add: group_def)




section \<open>The names that the pattern accepts\<close>

lemma rmatch_sound:
  "(p', i', g') \<in> set (rmatch r (p, i, g)) \<Longrightarrow>
     \<exists>w. i = w @ i' \<and> p' = p + length w \<and> lang r (p = 0) w i'"
proof (induction r arbitrary: p i g p' i' g')
  case Eps
  then show ?case by simp
next
  case Bol
  then show ?case by (simp split: if_splits)
next
  case Eol
  then show ?case by (auto split: if_splits)
next
  case (Str t)
  then have "take (length t) i = t" "i' = drop (length t) i" "p' = p + length t"
    by (auto split: if_splits)
  then have "i = t @ i' \<and> p' = p + length t" by (metis append_take_drop_id)
  then show ?case by simp
next
  case Any
  then show ?case by (auto split: list.splits if_splits)
next
  case (Plus cls)
  from Plus.prems many1_consumes [of p' i' g' cls p i g] show ?case by auto
next
  case (Grp n r)
  from Grp.prems obtain g0 where "(p', i', g0) \<in> set (rmatch r (p, i, g))" by auto
  from Grp.IH [OF this] show ?case by simp
next
  case (Seq r1 r2)
  from Seq.prems obtain p1 i1 g1 where a: "(p1, i1, g1) \<in> set (rmatch r1 (p, i, g))"
    and b: "(p', i', g') \<in> set (rmatch r2 (p1, i1, g1))" by auto
  from Seq.IH(1) [OF a] obtain u where u: "i = u @ i1" "p1 = p + length u" "lang r1 (p = 0) u i1"
    by blast
  from Seq.IH(2) [OF b] obtain v where v: "i1 = v @ i'" "p' = p1 + length v" "lang r2 (p1 = 0) v i'"
    by blast
  from u v have "i = (u @ v) @ i' \<and> p' = p + length (u @ v) \<and>
      lang r1 (p = 0) u (v @ i') \<and> lang r2 (p = 0 \<and> u = []) v i'"
    by simp
  then show ?case by (metis lang.simps(8))
next
  case (Alt r1 r2)
  from Alt.prems consider "(p', i', g') \<in> set (rmatch r1 (p, i, g))"
    | "(p', i', g') \<in> set (rmatch r2 (p, i, g))" by auto
  then show ?case
  proof cases
    case 1
    from Alt.IH(1) [OF 1] show ?thesis by auto
  next
    case 2
    from Alt.IH(2) [OF 2] show ?thesis by auto
  qed
next
  case (Opt r)
  from Opt.prems consider "(p', i', g') \<in> set (rmatch r (p, i, g))"
    | "(p', i', g') = (p, i, g)" by auto
  then show ?case
  proof cases
    case 1
    from Opt.IH [OF 1] show ?thesis by auto
  next
    case 2
    then show ?thesis by simp
  qed
qed

lemma many1_complete:
  "w \<noteq> [] \<Longrightarrow> list_all (in_class cls) w \<Longrightarrow> (p + length w, f, g) \<in> set (many1 cls p (w @ f) g)"
proof (induction w arbitrary: p)
  case Nil
  then show ?case by simp
next
  case (Cons c w)
  show ?case
  proof (cases "w = []")
    case True
    with Cons.prems show ?thesis by simp
  next
    case False
    with Cons.prems Cons.IH [of "Suc p"] show ?thesis by simp
  qed
qed

lemma rmatch_complete:
  "lang r (p = 0) w f \<Longrightarrow> \<exists>g'. (p + length w, f, g') \<in> set (rmatch r (p, w @ f, g))"
proof (induction r arbitrary: p w f g)
  case (Plus cls)
  then have "w \<noteq> []" "list_all (in_class cls) w" by simp_all
  from many1_complete [OF this, of p f g] show ?case by auto
next
  case (Grp n r)
  from Grp.IH [OF Grp.prems [simplified], of g] obtain g0
    where "(p + length w, f, g0) \<in> set (rmatch r (p, w @ f, g))" by blast
  then have "(p + length w, f, (n, take (p + length w - p) (w @ f)) # g0)
      \<in> set (rmatch (Grp n r) (p, w @ f, g))" by force
  then show ?case by blast
next
  case (Seq r1 r2)
  from Seq.prems obtain u v where w: "w = u @ v" and 1: "lang r1 (p = 0) u (v @ f)"
    and 2: "lang r2 (p = 0 \<and> u = []) v f" by auto
  from Seq.IH(1) [OF 1, of g] obtain g1
    where a: "(p + length u, v @ f, g1) \<in> set (rmatch r1 (p, u @ v @ f, g))" by blast
  from 2 have "lang r2 (p + length u = 0) v f" by simp
  from Seq.IH(2) [OF this, of g1] obtain g2
    where b: "(p + length u + length v, f, g2) \<in> set (rmatch r2 (p + length u, v @ f, g1))"
    by blast
  from a b w have "(p + length w, f, g2) \<in> set (rmatch (Seq r1 r2) (p, w @ f, g))"
    by (auto simp: add.assoc)
  then show ?case by blast
next
  case (Alt r1 r2)
  then show ?case by (auto simp: Un_def) blast+
next
  case (Opt r)
  then show ?case by (auto simp: Un_def) blast+
next
  case Any
  then obtain c where "w = [c]" "c \<noteq> newline" by auto
  then have "(p + length w, f, g) \<in> set (rmatch Any (p, w @ f, g))" by simp
  then show ?case by blast
next
  case Eps
  then have "(p + length w, f, g) \<in> set (rmatch Eps (p, w @ f, g))" by simp
  then show ?case by blast
next
  case Bol
  then have "(p + length w, f, g) \<in> set (rmatch Bol (p, w @ f, g))" by simp
  then show ?case by blast
next
  case Eol
  then have "(p + length w, f, g) \<in> set (rmatch Eol (p, w @ f, g))" by auto
  then show ?case by blast
next
  case (Str t)
  then have "(p + length w, f, g) \<in> set (rmatch (Str t) (p, w @ f, g))" by simp
  then show ?case by blast
qed

lemma re_match_iff_lang:
  "(re_match r s \<noteq> None) = (\<exists>w f. s = w @ f \<and> lang r True w f)"
proof
  assume "re_match r s \<noteq> None"
  then obtain g where "re_match r s = Some g" by blast
  from re_match_in_rmatch [OF this] obtain p i where "(p, i, g) \<in> set (rmatch r (0, s, []))"
    by blast
  from rmatch_sound [OF this] show "\<exists>w f. s = w @ f \<and> lang r True w f" by auto
next
  assume "\<exists>w f. s = w @ f \<and> lang r True w f"
  then obtain w f where s: "s = w @ f" and l: "lang r True w f" by blast
  from l have "lang r ((0::nat) = 0) w f" by simp
  from rmatch_complete [OF this, of "[]"] s obtain g' where
    "(length w, f, g') \<in> set (rmatch r (0, s, []))" by auto
  then have "rmatch r (0, s, []) \<noteq> []" by auto
  then show "re_match r s \<noteq> None"
    by (auto simp: re_match_def split: list.splits)
qed

lemma lang_SeqI:
  "lang r1 b u (v @ f) \<Longrightarrow> lang r2 (b \<and> u = []) v f \<Longrightarrow> lang (Seq r1 r2) b (u @ v) f"
  by auto

lemma datapattern_unfolded:
  "datapattern =
     Seq Bol (Seq (Str ''group'') (Seq (Grp ''year'' (Plus Digit))
    (Seq Any (Seq (Grp ''group'' (Plus NotDot))
    (Seq Any (Seq (Grp ''run'' (Plus Digit))
    (Seq Any (Seq (Grp ''stream'' (Plus NotDot))
    (Seq Any (Seq (Grp ''tag'' (Plus NotDot))
    (Seq Any (Seq (Grp ''version'' (Plus DigitHyphen))
    (Seq Any (Seq (Str ''D3PD'')
    (Seq (Opt (Seq Any (Grp ''edition'' (Plus Digit))))
    (Seq (Str ''_StreamD3PD_Tau'')
    (Seq (Grp ''size'' (Alt (Seq (Str ''SMALL'') Eol) (Seq (Str ''MEDIUM'') Eol)))
     Eps)))))))))))))))))"
  by (simp add: datapattern_def cat_def)

lemma data_grammar_lang:
  assumes "data_grammar s"
  shows "\<exists>w f. s = w @ f \<and> lang datapattern True w f"
proof -
  from assms obtain year c1 grp c2 run c3 stream c4 tag c5 version c6 ed size tl where
    s: "s = ''group'' @ year @ [c1] @ grp @ [c2] @ run @ [c3] @ stream @ [c4] @ tag @ [c5]
              @ version @ [c6] @ ''D3PD'' @ ed @ ''_StreamD3PD_Tau'' @ size @ tl"
    and f: "field Digit year" "field NotDot grp" "field Digit run" "field NotDot stream"
      "field NotDot tag" "field DigitHyphen version"
    and c: "c1 \<noteq> newline" "c2 \<noteq> newline" "c3 \<noteq> newline" "c4 \<noteq> newline"
      "c5 \<noteq> newline" "c6 \<noteq> newline"
    and ed: "edition_suffix ed"
    and size: "size = ''SMALL'' \<or> size = ''MEDIUM''"
    and tl: "tl = [] \<or> tl = [newline]"
    unfolding data_grammar_def by blast
  have l: "\<And>cls n b w x. field cls w \<Longrightarrow> lang (Grp n (Plus cls)) b w x"
    by (simp add: field_def)
  have a: "\<And>ch b x. ch \<noteq> newline \<Longrightarrow> lang Any b [ch] x"
    by simp
  have e: "lang (Opt (Seq Any (Grp ''edition'' (Plus Digit)))) b ed x" for b x
  proof (cases "ed = []")
    case True
    then show ?thesis by simp
  next
    case False
    with ed obtain ch e' where e': "ed = [ch] @ e'" "ch \<noteq> newline" "field Digit e'"
      by (auto simp: edition_suffix_def)
    have "lang (Seq Any (Grp ''edition'' (Plus Digit))) b ([ch] @ e') x"
      by (rule lang_SeqI, rule a, rule e', rule l, rule e')
    with e' show ?thesis by simp
  qed
  have z: "\<And>b. lang (Grp ''size'' (Alt (Seq (Str ''SMALL'') Eol) (Seq (Str ''MEDIUM'') Eol))) b
      size ([] @ tl)"
    using size tl by auto
  have "lang datapattern True
      ([] @ ''group'' @ year @ [c1] @ grp @ [c2] @ run @ [c3] @ stream @ [c4] @ tag @ [c5]
              @ version @ [c6] @ ''D3PD'' @ ed @ ''_StreamD3PD_Tau'' @ size @ []) tl"
    unfolding datapattern_unfolded
    apply (rule lang_SeqI, simp)
    apply (rule lang_SeqI, simp)
    apply (rule lang_SeqI, rule l, rule f)
    apply (rule lang_SeqI, rule a, rule c)
    apply (rule lang_SeqI, rule l, rule f)
    apply (rule lang_SeqI, rule a, rule c)
    apply (rule lang_SeqI, rule l, rule f)
    apply (rule lang_SeqI, rule a, rule c)
    apply (rule lang_SeqI, rule l, rule f)
    apply (rule lang_SeqI, rule a, rule c)
    apply (rule lang_SeqI, rule l, rule f)
    apply (rule lang_SeqI, rule a, rule c)
    apply (rule lang_SeqI, rule l, rule f)
    apply (rule lang_SeqI, rule a, rule c)
    apply (rule lang_SeqI, simp)
    apply (rule lang_SeqI, rule e)
    apply (rule lang_SeqI, simp)
    apply (rule lang_SeqI, rule z)
    apply simp
    done
  moreover have "s = ([] @ ''group'' @ year @ [c1] @ grp @ [c2] @ run @ [c3] @ stream @ [c4] @ tag @ [c5]
              @ version @ [c6] @ ''D3PD'' @ ed @ ''_StreamD3PD_Tau'' @ size @ []) @ tl"
    using s by simp
  ultimately show ?thesis by blast
qed

lemma lang_Seq_elim:
  assumes "\<exists>b. lang (Seq r1 r2) b w f"
  obtains u v where "w = u @ v" and "\<exists>b. lang r1 b u (v @ f)" and "\<exists>b. lang r2 b v f"
  using assms by auto

lemma lang_data_grammar:
  assumes "lang datapattern True w f"
  shows "data_grammar (w @ f)"
proof -
  from assms have l0: "\<exists>b. lang datapattern b w f" by blast
  note l0 = l0 [unfolded datapattern_unfolded]
  let ?r0 = "Seq Bol (Seq (Str ''group'') (Seq (Grp ''year'' (Plus Digit))
    (Seq Any (Seq (Grp ''group'' (Plus NotDot))
    (Seq Any (Seq (Grp ''run'' (Plus Digit))
    (Seq Any (Seq (Grp ''stream'' (Plus NotDot))
    (Seq Any (Seq (Grp ''tag'' (Plus NotDot))
    (Seq Any (Seq (Grp ''version'' (Plus DigitHyphen))
    (Seq Any (Seq (Str ''D3PD'')
    (Seq (Opt (Seq Any (Grp ''edition'' (Plus Digit))))
    (Seq (Str ''_StreamD3PD_Tau'')
    (Seq (Grp ''size'' (Alt (Seq (Str ''SMALL'') Eol) (Seq (Str ''MEDIUM'') Eol)))
     Eps)))))))))))))))))"
  let "Seq ?h0 ?r1" = "?r0"
  let "Seq ?h1 ?r2" = "?r1"
  let "Seq ?h2 ?r3" = "?r2"
  let "Seq ?h3 ?r4" = "?r3"
  let "Seq ?h4 ?r5" = "?r4"
  let "Seq ?h5 ?r6" = "?r5"
  let "Seq ?h6 ?r7" = "?r6"
  let "Seq ?h7 ?r8" = "?r7"
  let "Seq ?h8 ?r9" = "?r8"
  let "Seq ?h9 ?r10" = "?r9"
  let "Seq ?h10 ?r11" = "?r10"
  let "Seq ?h11 ?r12" = "?r11"
  let "Seq ?h12 ?r13" = "?r12"
  let "Seq ?h13 ?r14" = "?r13"
  let "Seq ?h14 ?r15" = "?r14"
  let "Seq ?h15 ?r16" = "?r15"
  let "Seq ?h16 ?r17" = "?r16"
  let "Seq ?h17 ?r18" = "?r17"
  from l0 obtain u0 v0 where e0: "w = u0 @ v0"
    and a0: "\<exists>b. lang ?h0 b u0 (v0 @ f)" and l1: "\<exists>b. lang ?r1 b v0 f"
    by (rule lang_Seq_elim)
  from l1 obtain u1 v1 where e1: "v0 = u1 @ v1"
    and a1: "\<exists>b. lang ?h1 b u1 (v1 @ f)" and l2: "\<exists>b. lang ?r2 b v1 f"
    by (rule lang_Seq_elim)
  from l2 obtain u2 v2 where e2: "v1 = u2 @ v2"
    and a2: "\<exists>b. lang ?h2 b u2 (v2 @ f)" and l3: "\<exists>b. lang ?r3 b v2 f"
    by (rule lang_Seq_elim)
  from l3 obtain u3 v3 where e3: "v2 = u3 @ v3"
    and a3: "\<exists>b. lang ?h3 b u3 (v3 @ f)" and l4: "\<exists>b. lang ?r4 b v3 f"
    by (rule lang_Seq_elim)
  from l4 obtain u4 v4 where e4: "v3 = u4 @ v4"
    and a4: "\<exists>b. lang ?h4 b u4 (v4 @ f)" and l5: "\<exists>b. lang ?r5 b v4 f"
    by (rule lang_Seq_elim)
  from l5 obtain u5 v5 where e5: "v4 = u5 @ v5"
    and a5: "\<exists>b. lang ?h5 b u5 (v5 @ f)" and l6: "\<exists>b. lang ?r6 b v5 f"
    by (rule lang_Seq_elim)
  from l6 obtain u6 v6 where e6: "v5 = u6 @ v6"
    and a6: "\<exists>b. lang ?h6 b u6 (v6 @ f)" and l7: "\<exists>b. lang ?r7 b v6 f"
    by (rule lang_Seq_elim)
  from l7 obtain u7 v7 where e7: "v6 = u7 @ v7"
    and a7: "\<exists>b. lang ?h7 b u7 (v7 @ f)" and l8: "\<exists>b. lang ?r8 b v7 f"
    by (rule lang_Seq_elim)
  from l8 obtain u8 v8 where e8: "v7 = u8 @ v8"
    and a8: "\<exists>b. lang ?h8 b u8 (v8 @ f)" and l9: "\<exists>b. lang ?r9 b v8 f"
    by (rule lang_Seq_elim)
  from l9 obtain u9 v9 where e9: "v8 = u9 @ v9"
    and a9: "\<exists>b. lang ?h9 b u9 (v9 @ f)" and l10: "\<exists>b. lang ?r10 b v9 f"
    by (rule lang_Seq_elim)
  from l10 obtain u10 v10 where e10: "v9 = u10 @ v10"
    and a10: "\<exists>b. lang ?h10 b u10 (v10 @ f)" and l11: "\<exists>b. lang ?r11 b v10 f"
    by (rule lang_Seq_elim)
  from l11 obtain u11 v11 where e11: "v10 = u11 @ v11"
    and a11: "\<exists>b. lang ?h11 b u11 (v11 @ f)" and l12: "\<exists>b. lang ?r12 b v11 f"
    by (rule lang_Seq_elim)
  from l12 obtain u12 v12 where e12: "v11 = u12 @ v12"
    and a12: "\<exists>b. lang ?h12 b u12 (v12 @ f)" and l13: "\<exists>b. lang ?r13 b v12 f"
    by (rule lang_Seq_elim)
  from l13 obtain u13 v13 where e13: "v12 = u13 @ v13"
    and a13: "\<exists>b. lang ?h13 b u13 (v13 @ f)" and l14: "\<exists>b. lang ?r14 b v13 f"
    by (rule lang_Seq_elim)
  from l14 obtain u14 v14 where e14: "v13 = u14 @ v14"
    and a14: "\<exists>b. lang ?h14 b u14 (v14 @ f)" and l15: "\<exists>b. lang ?r15 b v14 f"
    by (rule lang_Seq_elim)
  from l15 obtain u15 v15 where e15: "v14 = u15 @ v15"
    and a15: "\<exists>b. lang ?h15 b u15 (v15 @ f)" and l16: "\<exists>b. lang ?r16 b v15 f"
    by (rule lang_Seq_elim)
  from l16 obtain u16 v16 where e16: "v15 = u16 @ v16"
    and a16: "\<exists>b. lang ?h16 b u16 (v16 @ f)" and l17: "\<exists>b. lang ?r17 b v16 f"
    by (rule lang_Seq_elim)
  from l17 obtain u17 v17 where e17: "v16 = u17 @ v17"
    and a17: "\<exists>b. lang ?h17 b u17 (v17 @ f)" and l18: "\<exists>b. lang ?r18 b v17 f"
    by (rule lang_Seq_elim)
  from a0 have u0: "u0 = []" by simp
  from a1 have u1: "u1 = ''group''" by simp
  from a2 have u2: "field Digit u2" by (simp add: field_def)
  from a3 obtain c1 where u3: "u3 = [c1]" "c1 \<noteq> newline" by auto
  from a4 have u4: "field NotDot u4" by (simp add: field_def)
  from a5 obtain c2 where u5: "u5 = [c2]" "c2 \<noteq> newline" by auto
  from a6 have u6: "field Digit u6" by (simp add: field_def)
  from a7 obtain c3 where u7: "u7 = [c3]" "c3 \<noteq> newline" by auto
  from a8 have u8: "field NotDot u8" by (simp add: field_def)
  from a9 obtain c4 where u9: "u9 = [c4]" "c4 \<noteq> newline" by auto
  from a10 have u10: "field NotDot u10" by (simp add: field_def)
  from a11 obtain c5 where u11: "u11 = [c5]" "c5 \<noteq> newline" by auto
  from a12 have u12: "field DigitHyphen u12" by (simp add: field_def)
  from a13 obtain c6 where u13: "u13 = [c6]" "c6 \<noteq> newline" by auto
  from a14 have u14: "u14 = ''D3PD''" by simp
  from a15 have u15: "edition_suffix u15"
    by (auto simp: edition_suffix_def field_def)
  from a16 have u16: "u16 = ''_StreamD3PD_Tau''" by simp
  from l18 have v17: "v17 = []" by simp
  from a17 v17 have u17: "u17 = ''SMALL'' \<or> u17 = ''MEDIUM''" and f: "f = [] \<or> f = [newline]"
    by auto
  have "w @ f = ''group'' @ u2 @ [c1] @ u4 @ [c2] @ u6 @ [c3] @ u8 @ [c4] @ u10 @ [c5]
              @ u12 @ [c6] @ ''D3PD'' @ u15 @ ''_StreamD3PD_Tau'' @ u17 @ f"
    by (simp add: e0 e1 e2 e3 e4 e5 e6 e7 e8 e9 e10 e11 e12 e13 e14 e15 e16 e17
          u0 u1 u3 u5 u7 u9 u11 u13 u14 u16 v17)
  with u2 u4 u6 u8 u10 u12 u3(2) u5(2) u7(2) u9(2) u11(2) u13(2) u15 u17 f
  show ?thesis unfolding data_grammar_def by blast
qed

lemma spec_grammar_suffix:
  assumes "spec_data_grammar s"
  shows "take 19 (rev s) = ''LLAMSuaTDP3DmaertS_'' \<or> take 20 (rev s) = ''MUIDEMuaTDP3DmaertS_''"
proof -
  from assms obtain year grp run stream tag version ed size where
    s: "s = ''group'' @ year @ ''.'' @ grp @ ''.'' @ run @ ''.'' @ stream @ ''.'' @ tag @ ''.''
              @ version @ ''.D3PD'' @ ed @ ''_StreamD3PDTau'' @ size"
    and size: "size = ''SMALL'' \<or> size = ''MEDIUM''"
    unfolding spec_data_grammar_def by blast
  from s have "rev s = rev size @ ''uaTDP3DmaertS_'' @
      rev (''group'' @ year @ ''.'' @ grp @ ''.'' @ run @ ''.'' @ stream @ ''.'' @ tag @ ''.''
              @ version @ ''.D3PD'' @ ed)"
    by simp
  with size show ?thesis by auto
qed

lemma data_grammar_accepted: "data_grammar s \<Longrightarrow> re_match datapattern s \<noteq> None"
  using data_grammar_lang [of s] unfolding re_match_iff_lang .

section \<open>The edition that the loop keeps for a run\<close>

lemma map_of_update: "map_of (update k v rs) = (map_of rs)(k \<mapsto> v)"
  by (induction rs) (auto simp: fun_eq_iff)

lemma data_step_keep:
  assumes "data_step periods runs dir = (out, Continue runs')"
  shows "runs' = keep periods runs dir"
proof (cases "re_match datapattern (basename dir)")
  case None
  with assms show ?thesis by (simp add: data_step_nomatch keep_def dir_info_def)
next
  case (Some g)
  from data_step_match [OF Some, of periods runs] obtain ds where
    ds: "group g ''run'' = Some ds" and
    eq: "data_step periods runs dir =
     (case period_filter periods (int_of_digits ds) of
        (out, None) \<Rightarrow> (out, ReturnNone)
      | (out, Some False) \<Rightarrow> (out, Continue runs)
      | (out, Some True) \<Rightarrow>
          (case map_of runs (int_of_digits ds) of
             Some stored \<Rightarrow>
               (out @ [multiple_editions_warning dir],
                Continue (if edition_of g > fst stored
                          then update (int_of_digits ds) (edition_of g, dir) runs
                          else runs))
           | None \<Rightarrow> (out, Continue (update (int_of_digits ds) (edition_of g, dir) runs))))"
    by blast
  obtain o1 b where pf: "period_filter periods (int_of_digits ds) = (o1, b)"
    by (cases "period_filter periods (int_of_digits ds)")
  show ?thesis
  proof (cases b)
    case None
    with eq pf assms show ?thesis by simp
  next
    case (Some inperiod)
    with eq pf assms \<open>re_match datapattern (basename dir) = Some g\<close> ds show ?thesis
      by (cases inperiod; cases "map_of runs (int_of_digits ds)")
         (auto simp: keep_def dir_info_def)
  qed
qed

lemma data_loop_foldl:
  "data_loop periods runs dirs = (out, Continue runs') \<Longrightarrow> runs' = foldl (keep periods) runs dirs"
proof (induction dirs arbitrary: runs out)
  case Nil
  then show ?case by simp
next
  case (Cons dir dirs)
  obtain o1 r1 where s: "data_step periods runs dir = (o1, r1)"
    by (cases "data_step periods runs dir")
  show ?case
  proof (cases r1)
    case (Continue runs1)
    obtain o2 r2 where l: "data_loop periods runs1 dirs = (o2, r2)"
      by (cases "data_loop periods runs1 dirs")
    with Cons.prems s Continue have "r2 = Continue runs'" by simp
    with l Cons.IH have "runs' = foldl (keep periods) runs1 dirs" by blast
    with data_step_keep [OF s [unfolded Continue]] show ?thesis by simp
  next
    case ReturnNone
    with Cons.prems s show ?thesis by simp
  next
    case (Raise x)
    with Cons.prems s show ?thesis by simp
  qed
qed

lemma first_greatest_bound:
  assumes "first_greatest periods dirs r e d" and "d' \<in> set dirs"
    and "dir_info periods d' = Some (r, e')"
  shows "e' \<le> e"
proof -
  from assms(1) obtain pre post where p: "dirs = pre @ d # post"
    "dir_info periods d = Some (r, e)"
    "\<forall>d' \<in> set pre. \<forall>e'. dir_info periods d' = Some (r, e') \<longrightarrow> e' < e"
    "\<forall>d' \<in> set post. \<forall>e'. dir_info periods d' = Some (r, e') \<longrightarrow> e' \<le> e"
    unfolding first_greatest_def by blast
  from assms(2) p(1) consider "d' \<in> set pre" | "d' = d" | "d' \<in> set post" by auto
  then show ?thesis
  proof cases
    case 1
    with p(3) assms(3) show ?thesis by fastforce
  next
    case 2
    with p(2) assms(3) show ?thesis by simp
  next
    case 3
    with p(4) assms(3) show ?thesis by blast
  qed
qed

lemma first_greatest_snoc_other:
  assumes "first_greatest periods dirs r e d"
    and "\<And>e'. dir_info periods x = Some (r, e') \<Longrightarrow> e' \<le> e"
  shows "first_greatest periods (dirs @ [x]) r e d"
proof -
  from assms(1) obtain pre post where p: "dirs = pre @ d # post"
    "dir_info periods d = Some (r, e)"
    "\<forall>d' \<in> set pre. \<forall>e'. dir_info periods d' = Some (r, e') \<longrightarrow> e' < e"
    "\<forall>d' \<in> set post. \<forall>e'. dir_info periods d' = Some (r, e') \<longrightarrow> e' \<le> e"
    unfolding first_greatest_def by blast
  from p(1) have "dirs @ [x] = pre @ d # (post @ [x])" by simp
  moreover from p(4) assms(2)
  have "\<forall>d' \<in> set (post @ [x]). \<forall>e'. dir_info periods d' = Some (r, e') \<longrightarrow> e' \<le> e"
    by auto
  ultimately show ?thesis unfolding first_greatest_def using p(2) p(3) by blast
qed

lemma first_greatest_snoc_new:
  assumes "dir_info periods x = Some (r, e)"
    and "\<And>d' e'. d' \<in> set dirs \<Longrightarrow> dir_info periods d' = Some (r, e') \<Longrightarrow> e' < e"
  shows "first_greatest periods (dirs @ [x]) r e x"
proof -
  have "dirs @ [x] = dirs @ x # [] \<and> dir_info periods x = Some (r, e) \<and>
        (\<forall>d' \<in> set dirs. \<forall>e'. dir_info periods d' = Some (r, e') \<longrightarrow> e' < e) \<and>
        (\<forall>d' \<in> set []. \<forall>e'. dir_info periods d' = Some (r, e') \<longrightarrow> e' \<le> e)"
    using assms by simp
  then show ?thesis unfolding first_greatest_def by (intro exI)
qed

lemma runs_hold_first_greatest_edition_aux:
  "(\<forall>r e d. map_of (foldl (keep periods) [] dirs) r = Some (e, d) \<longrightarrow>
       first_greatest periods dirs r e d) \<and>
   (\<forall>d' r e'. d' \<in> set dirs \<longrightarrow> dir_info periods d' = Some (r, e') \<longrightarrow>
       map_of (foldl (keep periods) [] dirs) r \<noteq> None)"
proof (induction dirs rule: rev_induct)
  case Nil
  then show ?case by simp
next
  case (snoc x dirs)
  let ?runs = "foldl (keep periods) [] dirs"
  from snoc.IH have
    A: "\<And>r e d. map_of ?runs r = Some (e, d) \<Longrightarrow> first_greatest periods dirs r e d" and
    B: "\<And>d' r e'. d' \<in> set dirs \<Longrightarrow> dir_info periods d' = Some (r, e') \<Longrightarrow>
           map_of ?runs r \<noteq> None"
    by blast+
  have f: "foldl (keep periods) [] (dirs @ [x]) = keep periods ?runs x" by simp
  show ?case
  proof (cases "dir_info periods x")
    case None
    then have k: "keep periods ?runs x = ?runs" by (simp add: keep_def)
    have "first_greatest periods (dirs @ [x]) r e d" if "map_of ?runs r = Some (e, d)" for r e d
      by (rule first_greatest_snoc_other [OF A [OF that]]) (simp add: None)
    moreover have "map_of ?runs r \<noteq> None"
      if "d' \<in> set (dirs @ [x])" "dir_info periods d' = Some (r, e')" for d' r e'
      using that None B by auto
    ultimately show ?thesis unfolding f k by blast
  next
    case (Some re)
    obtain rx ex where re: "re = (rx, ex)" by (cases re)
    note info = Some [unfolded re]
    show ?thesis
    proof (cases "map_of ?runs rx")
      case None
      then have k: "keep periods ?runs x = update rx (ex, x) ?runs"
        by (simp add: keep_def info)
      have new: "first_greatest periods (dirs @ [x]) rx ex x"
      proof (rule first_greatest_snoc_new [OF info])
        fix d' e' assume "d' \<in> set dirs" "dir_info periods d' = Some (rx, e')"
        from B [OF this] None show "e' < ex" by simp
      qed
      have "first_greatest periods (dirs @ [x]) r e d"
        if m: "map_of (update rx (ex, x) ?runs) r = Some (e, d)" for r e d
      proof (cases "r = rx")
        case True
        with m new show ?thesis by (simp add: map_of_update)
      next
        case False
        with m have m': "map_of ?runs r = Some (e, d)" by (simp add: map_of_update)
        show ?thesis
        proof (rule first_greatest_snoc_other [OF A [OF m']])
          fix e' assume "dir_info periods x = Some (r, e')"
          with info False show "e' \<le> e" by simp
        qed
      qed
      moreover have "map_of (update rx (ex, x) ?runs) r \<noteq> None"
        if "d' \<in> set (dirs @ [x])" "dir_info periods d' = Some (r, e')" for d' r e'
        using that info B by (auto simp: map_of_update)
      ultimately show ?thesis unfolding f k by blast
    next
      case (Some stored)
      obtain e0 d0 where st: "stored = (e0, d0)" by (cases stored)
      note stored = Some [unfolded st]
      from A [OF stored] have fg0: "first_greatest periods dirs rx e0 d0" .
      show ?thesis
      proof (cases "e0 < ex")
        case True
        then have k: "keep periods ?runs x = update rx (ex, x) ?runs"
          by (simp add: keep_def info stored)
        have new: "first_greatest periods (dirs @ [x]) rx ex x"
        proof (rule first_greatest_snoc_new [OF info])
          fix d' e' assume "d' \<in> set dirs" "dir_info periods d' = Some (rx, e')"
          from first_greatest_bound [OF fg0 this] True show "e' < ex" by simp
        qed
        have "first_greatest periods (dirs @ [x]) r e d"
          if m: "map_of (update rx (ex, x) ?runs) r = Some (e, d)" for r e d
        proof (cases "r = rx")
          case True
          with m new show ?thesis by (simp add: map_of_update)
        next
          case False
          with m have m': "map_of ?runs r = Some (e, d)" by (simp add: map_of_update)
          show ?thesis
          proof (rule first_greatest_snoc_other [OF A [OF m']])
            fix e' assume "dir_info periods x = Some (r, e')"
            with info False show "e' \<le> e" by simp
          qed
        qed
        moreover have "map_of (update rx (ex, x) ?runs) r \<noteq> None"
          if "d' \<in> set (dirs @ [x])" "dir_info periods d' = Some (r, e')" for d' r e'
          using that info B by (auto simp: map_of_update)
        ultimately show ?thesis unfolding f k by blast
      next
        case False
        then have k: "keep periods ?runs x = ?runs"
          by (simp add: keep_def info stored)
        have "first_greatest periods (dirs @ [x]) r e d"
          if m: "map_of ?runs r = Some (e, d)" for r e d
        proof (rule first_greatest_snoc_other [OF A [OF m]])
          fix e' assume "dir_info periods x = Some (r, e')"
          with info have "r = rx" "e' = ex" by simp_all
          with m stored False show "e' \<le> e" by simp
        qed
        moreover have "map_of ?runs r \<noteq> None"
          if "d' \<in> set (dirs @ [x])" "dir_info periods d' = Some (r, e')" for d' r e'
          using that info B stored by auto
        ultimately show ?thesis unfolding f k by blast
      qed
    qed
  qed
qed

lemma runs_hold_first_greatest_edition:
  assumes "data_loop periods [] dirs = (out, Continue runs)"
  shows "map_of runs r = Some (e, d) \<Longrightarrow> first_greatest periods dirs r e d"
    and "d' \<in> set dirs \<Longrightarrow> dir_info periods d' = Some (r, e') \<Longrightarrow> map_of runs r \<noteq> None"
  using runs_hold_first_greatest_edition_aux [of periods dirs] data_loop_foldl [OF assms]
  by blast+

lemma two_editions_example:
  "get_sample (example_env (meta_doc ''data'' ''signal'' ''1'' ''tau'')
       [(run153000, [''a.root'']), (run153000_edition2, [''b.root''])]) ''s'' None =
     ([multiple_editions_warning (subdir run153000_edition2)],
      Returned (Some \<lparr>ds_name = ''s'', ds_datatype = 0, ds_classtype = 1,
                       ds_treename = ''tau'', ds_weight = 1,
                       ds_files = [path_join (subdir run153000_edition2) ''b.root'']\<rparr>))"
proof -
  have 1: "map_of classes (upper ''signal'') = Some 1" by (simp add: upper_examples classes_def)
  have 2: "map_of types (upper ''data'') = Some 0" by (simp add: upper_examples types_def)
  have s1: "data_step None [] (subdir run153000) = ([], Continue [(153000, 0, subdir run153000)])"
    by (simp add: data_step_def basename_join example_names run153000_match example_groups
          run_numbers period_filter_def example_editions)
  have s2: "data_step None [(153000, 0, subdir run153000)] (subdir run153000_edition2) =
      ([multiple_editions_warning (subdir run153000_edition2)],
       Continue [(153000, 2, subdir run153000_edition2)])"
    by (simp add: data_step_def basename_join example_names run153000_edition2_match
          example_groups run_numbers period_filter_def example_editions
          multiple_editions_warning_def)
  have 3: "glob_root (example_env (meta_doc ''data'' ''signal'' ''1'' ''tau'')
       [(run153000, [''a.root'']), (run153000_edition2, [''b.root''])])
      (subdir run153000_edition2) = [path_join (subdir run153000_edition2) ''b.root'']"
    by (simp add: example_glob_root example_plain_names example_names visible_def)
  from get_sample_classified [OF example_isdir example_isfile example_read_meta 1 2,
      of "[(run153000, [''a.root'']), (run153000_edition2, [''b.root''])]" None]
  show ?thesis
    by (simp add: example_two_subdirs s1 s2 suffixed_def 3)
qed

section \<open>The claims\<close>

text \<open>
  C1.  The claim: when the metadata parses but the upper-cased type is not a key of
  \<open>types\<close>, \<open>get_sample\<close> returns None and raises nothing.  The code prints the
  diagnostic for the unknown type and then, unlike the branch for an unknown class, does
  not return: the lookup \<open>types[datatype]\<close> of line 75 raises KeyError.  Here for a
  sample whose metadata has the type \<open>foo\<close> and the class \<open>signal\<close>.
\<close>

theorem unknown_type_raises_KeyError:
  "get_sample (example_env (meta_doc ''foo'' ''signal'' ''1'' ''tau'') []) ''s'' None =
     ([''Datatype FOO is not defined!'', ''Use one of these:'', ''DATA'', ''MC''],
      Raised (KeyError ''FOO''))"
proof -
  have 1: "map_of classes (upper ''signal'') = Some 1" by (simp add: upper_examples classes_def)
  have 2: "map_of types (upper ''foo'') = None" by (simp add: upper_examples types_def)
  from get_sample_unknown_type [OF example_isdir example_isfile example_read_meta 1 2]
  show ?thesis by (simp add: upper_examples undefined_key_def types_def)
qed

text \<open>
  C2, as amended.  When \<open>get_sample\<close> returns a Dataset for a DATA sample and a
  non-empty list of period labels, the name of the Dataset is the sample name, an
  underscore, and the labels concatenated in the order given.
\<close>

theorem period_suffix_after_underscore:
  assumes "get_sample e name (Some ps) = (out, Returned (Some d))"
    and "ps \<noteq> []"
    and "map_of types ''DATA'' = Some (ds_datatype d)"
  shows "ds_name d = name @ ''_'' @ concat ps"
proof -
  from get_sample_Returned_Some [OF assms(1)] obtain dt classname weight treename classtype code
    where 1: "isdir e (base_of e name)" and 2: "isfile e (metafile_of e name)"
      and 3: "read_meta e (metafile_of e name) = Inr (dt, classname, weight, treename)"
      and 4: "map_of classes classname = Some classtype"
      and 5: "map_of types dt = Some code"
    by blast
  from assms(3) have 0: "ds_datatype d = 0" by (simp add: types_def)
  from get_sample_classified [OF 1 2 3 4 5, of "Some ps"] assms(1) assms(2) 0
  show ?thesis
    by (auto simp: suffixed_def split: if_splits prod.splits loop_result.splits)
qed

theorem period_suffix_after_underscore_witness:
  "get_sample (example_env (meta_doc ''data'' ''signal'' ''1'' ''tau'') []) ''s'' (Some [''AB'', ''F'']) =
     ([], Returned (Some \<lparr>ds_name = ''s_ABF'', ds_datatype = 0, ds_classtype = 1,
                       ds_treename = ''tau'', ds_weight = 1, ds_files = []\<rparr>))"
proof -
  have 1: "map_of classes (upper ''signal'') = Some 1" by (simp add: upper_examples classes_def)
  have 2: "map_of types (upper ''data'') = Some 0" by (simp add: upper_examples types_def)
  from get_sample_classified [OF example_isdir example_isfile example_read_meta 1 2,
      of "[]" "Some [''AB'', ''F'']"]
  obtain n where g: "get_sample (example_env (meta_doc ''data'' ''signal'' ''1'' ''tau'') []) ''s''
        (Some [''AB'', ''F'']) =
     ([], Returned (Some \<lparr>ds_name = n, ds_datatype = 0, ds_classtype = 1,
                       ds_treename = ''tau'', ds_weight = 1, ds_files = []\<rparr>))"
    by (simp add: example_no_subdirs)
  have "map_of types ''DATA'' = Some 0" by (simp add: types_def)
  with period_suffix_after_underscore [OF g] have "n = ''s_ABF''" by simp
  with g show ?thesis by simp
qed

text \<open>
  C2 as it stands fails: with the labels \<open>AB\<close> the name is \<open>s_AB\<close>, not \<open>sAB\<close>.
\<close>

theorem period_suffix_counterexample:
  "get_sample (example_env (meta_doc ''data'' ''signal'' ''1'' ''tau'') []) ''s'' (Some [''AB'']) =
     ([], Returned (Some \<lparr>ds_name = ''s_AB'', ds_datatype = 0, ds_classtype = 1,
                       ds_treename = ''tau'', ds_weight = 1, ds_files = []\<rparr>))
   \<and> ''s_AB'' \<noteq> ''s'' @ concat [''AB'']"
proof -
  have 1: "map_of classes (upper ''signal'') = Some 1" by (simp add: upper_examples classes_def)
  have 2: "map_of types (upper ''data'') = Some 0" by (simp add: upper_examples types_def)
  from get_sample_classified [OF example_isdir example_isfile example_read_meta 1 2,
      of "[]" "Some [''AB'']"]
  show ?thesis by (simp add: example_no_subdirs suffixed_def)
qed






text \<open>
  C4, as amended.  \<open>re.match(datapattern, name)\<close> accepts a name if and only if the name
  is \<open>group\<close>, digits (year), a separator, characters other than a dot (group), a
  separator, digits (run), a separator, characters other than a dot (stream), a
  separator, characters other than a dot (tag), a separator, digits and hyphens
  (version), a separator, \<open>D3PD\<close>, optionally a separator and digits (edition),
  \<open>_StreamD3PD_Tau\<close>, and \<open>SMALL\<close> or \<open>MEDIUM\<close> at the end of the name or before a
  newline that ends it; a separator is any one character but a newline.
\<close>

theorem accepted_iff_data_grammar: "(re_match datapattern s \<noteq> None) = data_grammar s"
proof
  assume "re_match datapattern s \<noteq> None"
  then obtain w f where "s = w @ f" "lang datapattern True w f"
    unfolding re_match_iff_lang by blast
  with lang_data_grammar show "data_grammar s" by blast
next
  assume "data_grammar s"
  then show "re_match datapattern s \<noteq> None" by (rule data_grammar_accepted)
qed

theorem accepted_iff_data_grammar_witness:
  "re_match datapattern run153000_edition2 \<noteq> None \<and> data_grammar run153000_edition2"
  using accepted_iff_data_grammar [of run153000_edition2] run153000_edition2_match by simp

text \<open>
  C4 as it stands fails.  A name after the template of the specification is not
  accepted: the pattern wants \<open>_StreamD3PD_Tau\<close>, with an underscore before \<open>Tau\<close>.  And
  the pattern accepts names that the template does not describe: with the underscore;
  with separators other than dots; with a newline after the size.
\<close>

theorem spec_template_counterexample:
  "spec_data_grammar name_as_specified \<and> re_match datapattern name_as_specified = None \<and>
   re_match datapattern run153000 \<noteq> None \<and> \<not> spec_data_grammar run153000 \<and>
   re_match datapattern name_with_hyphens \<noteq> None \<and> \<not> spec_data_grammar name_with_hyphens \<and>
   re_match datapattern (run153000 @ [newline]) \<noteq> None \<and>
   \<not> spec_data_grammar (run153000 @ [newline])"
proof -
  have 1: "spec_data_grammar name_as_specified"
    unfolding spec_data_grammar_def name_as_specified_def
    apply (rule exI [of _ "''1''"], rule exI [of _ "''a''"], rule exI [of _ "''153000''"])
    apply (rule exI [of _ "''s''"], rule exI [of _ "''t''"], rule exI [of _ "''1''"])
    apply (rule exI [of _ "[]"], rule exI [of _ "''SMALL''"])
    apply (simp add: field_def is_digit_def)
    done
  have 2: "re_match datapattern name_as_specified = None"
    by (simp add: name_as_specified_def re_match_def datapattern_def cat_def is_digit_def
          newline_def)
  have "data_grammar name_with_hyphens"
    unfolding data_grammar_def name_with_hyphens_def
    apply (rule exI [of _ "''1''"], rule exI [of _ "CHR ''-''"])
    apply (rule exI [of _ "''a''"], rule exI [of _ "CHR ''-''"])
    apply (rule exI [of _ "''153000''"], rule exI [of _ "CHR ''-''"])
    apply (rule exI [of _ "''s''"], rule exI [of _ "CHR ''-''"])
    apply (rule exI [of _ "''t''"], rule exI [of _ "CHR ''-''"])
    apply (rule exI [of _ "''1''"], rule exI [of _ "CHR ''-''"])
    apply (rule exI [of _ "[]"], rule exI [of _ "''SMALL''"], rule exI [of _ "[]"])
    apply (simp add: field_def is_digit_def newline_def edition_suffix_def)
    done
  then have 3: "re_match datapattern name_with_hyphens \<noteq> None" by (rule data_grammar_accepted)
  have 4: "re_match datapattern (run153000 @ [newline]) \<noteq> None"
    by (simp add: run153000_def re_match_def datapattern_def cat_def is_digit_def newline_def)
  have 5: "\<not> spec_data_grammar name_with_hyphens"
    "\<not> spec_data_grammar (run153000 @ [newline])" "\<not> spec_data_grammar run153000"
    using spec_grammar_suffix [of name_with_hyphens]
      spec_grammar_suffix [of "run153000 @ [newline]"] spec_grammar_suffix [of run153000]
    by (auto simp: name_with_hyphens_def run153000_def newline_def)
  from 1 2 3 4 5 run153000_match show ?thesis by simp
qed





text \<open>
  C8, as amended.  For an MC sample whose root has none of the characters \<open>*?[\<close> in
  its path and lists plain names only, the files are, for each entry of the root in the
  order listed whose name does not begin with a dot and which is a directory, the
  entries of that directory in the order listed whose names hold \<open>root\<close> and do not
  begin with a dot; nothing is removed, and the name of a directory is not matched
  against any pattern.
\<close>

theorem mc_files_from_visible_subdirs:
  assumes "isdir e (base_of e name)"
    and "isfile e (metafile_of e name)"
    and "read_meta e (metafile_of e name) = Inr (''MC'', classname, weight, treename)"
    and "map_of classes classname = Some classtype"
    and "\<not> has_magic (sample_root e name)"
    and "list_all plain_name (listing e (sample_root e name))"
  shows "get_sample e name periods =
     ([], Returned (Some \<lparr>ds_name = name, ds_datatype = 1, ds_classtype = classtype,
                       ds_treename = treename, ds_weight = weight,
                       ds_files = concat (map (root_entries e)
                                    (visible_subdirs e (sample_root e name)))\<rparr>))"
proof -
  have t: "map_of types ''MC'' = Some 1" by (simp add: types_def)
  have "map (glob_root e) (visible_subdirs e (sample_root e name)) =
      map (root_entries e) (visible_subdirs e (sample_root e name))"
    by (rule map_cong [OF refl]) (rule glob_root_visible_subdirs [OF assms(5) assms(6)])
  with get_sample_classified [OF assms(1) assms(2) assms(3) assms(4) t, of periods]
  show ?thesis by (simp add: actualdirs_plain [OF assms(5)])
qed

theorem mc_files_from_visible_subdirs_witness:
  "get_sample (example_env (meta_doc ''mc'' ''signal'' ''1'' ''tau'')
       [(''a'', [''a.root.1'', ''b.txt'', ''c_root_x''])]) ''s'' None =
     ([], Returned (Some \<lparr>ds_name = ''s'', ds_datatype = 1, ds_classtype = 1,
                       ds_treename = ''tau'', ds_weight = 1,
                       ds_files = [''/data/s/a/a.root.1'', ''/data/s/a/c_root_x'']\<rparr>))"
proof -
  have 1: "map_of classes (upper ''signal'') = Some 1" by (simp add: upper_examples classes_def)
  have 2: "read_meta (example_env (meta_doc ''mc'' ''signal'' ''1'' ''tau'') [(''a'', [''a.root.1'', ''b.txt'', ''c_root_x''])])
     (metafile_of (example_env (meta_doc ''mc'' ''signal'' ''1'' ''tau'') [(''a'', [''a.root.1'', ''b.txt'', ''c_root_x''])]) ''s'')
       = Inr (''MC'', upper ''signal'', 1, ''tau'')"
    by (simp add: example_read_meta upper_examples)
  have 3: "\<not> has_magic (sample_root (example_env (meta_doc ''mc'' ''signal'' ''1'' ''tau'')
       [(''a'', [''a.root.1'', ''b.txt'', ''c_root_x''])]) ''s'')"
    by (simp add: example_sample_root) (simp add: has_magic_def)
  have 4: "list_all plain_name (listing (example_env (meta_doc ''mc'' ''signal'' ''1'' ''tau'')
       [(''a'', [''a.root.1'', ''b.txt'', ''c_root_x''])])
          (sample_root (example_env (meta_doc ''mc'' ''signal'' ''1'' ''tau'')
       [(''a'', [''a.root.1'', ''b.txt'', ''c_root_x''])]) ''s''))"
    by (simp add: example_sample_root example_listing_root example_plain_names)
  have 5: "visible_subdirs (example_env (meta_doc ''mc'' ''signal'' ''1'' ''tau'')
       [(''a'', [''a.root.1'', ''b.txt'', ''c_root_x''])]) ''/data/s'' = [''/data/s/a'']"
    by (simp add: visible_subdirs_def example_listing_root)
       (simp add: visible_def path_join_def slash_def example_env_def)
  have 6: "root_entries (example_env (meta_doc ''mc'' ''signal'' ''1'' ''tau'')
       [(''a'', [''a.root.1'', ''b.txt'', ''c_root_x''])]) ''/data/s/a'' =
         [''/data/s/a/a.root.1'', ''/data/s/a/c_root_x'']"
    by (simp add: root_entries_def)
       (simp add: example_env_def visible_def path_join_def slash_def)
  from mc_files_from_visible_subdirs [OF example_isdir example_isfile 2 1 3 4, of None]
  show ?thesis by (simp add: example_sample_root 5 6)
qed

text \<open>
  C8 as it stands fails: \<open>glob\<close> leaves out the names that begin with a dot.  The
  entry \<open>.rootrc\<close> of the directory \<open>a\<close> and the entry \<open>y.root\<close> of the directory
  \<open>.old\<close> hold \<open>root\<close>, and neither is among the files.
\<close>

theorem hidden_names_counterexample:
  "get_sample (example_env (meta_doc ''mc'' ''signal'' ''1'' ''tau'')
       [(''a'', [''.rootrc'', ''x.root'']), (''.old'', [''y.root''])]) ''s'' None =
     ([], Returned (Some \<lparr>ds_name = ''s'', ds_datatype = 1, ds_classtype = 1,
                       ds_treename = ''tau'', ds_weight = 1,
                       ds_files = [''/data/s/a/x.root'']\<rparr>))
   \<and> contains ''root'' ''.rootrc'' \<and> contains ''root'' ''y.root''"
proof -
  have 1: "map_of classes (upper ''signal'') = Some 1" by (simp add: upper_examples classes_def)
  have 2: "map_of types (upper ''mc'') = Some 1" by (simp add: upper_examples types_def)
  have 3: "actualdirs_of (example_env (meta_doc ''mc'' ''signal'' ''1'' ''tau'')
       [(''a'', [''.rootrc'', ''x.root'']), (''.old'', [''y.root''])]) ''s'' = [subdir ''a'']"
  proof -
    have v: "filter visible (''meta.xml'' # map fst [(''a'', [''.rootrc'', ''x.root'']), (''.old'', [''y.root''])])
       = [''meta.xml'', ''a'']"
      by (simp add: visible_def)
    have s: "list_all (\<lambda>n. take 1 n \<noteq> [slash]) [''meta.xml'', ''a'']" by (simp add: slash_def)
    from example_actualdirs [OF s, of "meta_doc ''mc'' ''signal'' ''1'' ''tau''"
        "[(''a'', [''.rootrc'', ''x.root'']), (''.old'', [''y.root''])]"]
    show ?thesis
      by (simp only: actualdirs_of_def example_base example_glob_star v) simp
  qed
  have 4: "glob_root (example_env (meta_doc ''mc'' ''signal'' ''1'' ''tau'')
       [(''a'', [''.rootrc'', ''x.root'']), (''.old'', [''y.root''])]) (subdir ''a'') =
      [''/data/s/a/x.root'']"
    by (simp add: example_glob_root example_plain_names)
       (simp add: visible_def path_join_def subdir_def slash_def)
  from get_sample_classified [OF example_isdir example_isfile example_read_meta 1 2,
      of "[(''a'', [''.rootrc'', ''x.root'']), (''.old'', [''y.root''])]" None]
  show ?thesis by (simp add: 3 4)
qed

text \<open>
  C9.  When \<open>get_sample\<close> returns a Dataset, its \<open>classtype\<close> is a value of the table
  \<open>classes\<close> and its \<open>datatype\<close> is a value of the table \<open>types\<close>: they are the codes
  that the tables give for the upper-cased strings of the metadata, not the strings.
\<close>

theorem sample_codes_from_tables:
  assumes "get_sample e name periods = (out, Returned (Some d))"
  shows "ds_classtype d \<in> snd ` set classes \<and> ds_datatype d \<in> snd ` set types \<and>
     (\<exists>dt classname weight treename.
        read_meta e (metafile_of e name) = Inr (dt, classname, weight, treename) \<and>
        map_of classes classname = Some (ds_classtype d) \<and>
        map_of types dt = Some (ds_datatype d))"
proof -
  from get_sample_Returned_Some [OF assms] obtain dt classname weight treename classtype code
    where 1: "isdir e (base_of e name)" and 2: "isfile e (metafile_of e name)"
      and 3: "read_meta e (metafile_of e name) = Inr (dt, classname, weight, treename)"
      and 4: "map_of classes classname = Some classtype"
      and 5: "map_of types dt = Some code"
    by blast
  from get_sample_classified [OF 1 2 3 4 5, of periods] assms
  have "ds_classtype d = classtype \<and> ds_datatype d = code"
    by (auto split: if_splits prod.splits loop_result.splits)
  moreover from 4 have "classtype \<in> snd ` set classes"
    by (metis map_of_SomeD snd_conv image_eqI)
  moreover from 5 have "code \<in> snd ` set types"
    by (metis map_of_SomeD snd_conv image_eqI)
  ultimately show ?thesis using 3 4 5 by blast
qed

theorem sample_codes_from_tables_witness:
  "get_sample (example_env (meta_doc ''mc'' ''signal'' ''1'' ''tau'') []) ''s'' None =
     ([], Returned (Some \<lparr>ds_name = ''s'', ds_datatype = 1, ds_classtype = 1,
                       ds_treename = ''tau'', ds_weight = 1, ds_files = []\<rparr>))
   \<and> (1::nat) \<in> snd ` set classes \<and> (1::nat) \<in> snd ` set types"
proof -
  have 1: "map_of classes (upper ''signal'') = Some 1" by (simp add: upper_examples classes_def)
  have 2: "map_of types (upper ''mc'') = Some 1" by (simp add: upper_examples types_def)
  from get_sample_classified [OF example_isdir example_isfile example_read_meta 1 2, of "[]" None]
  have g: "get_sample (example_env (meta_doc ''mc'' ''signal'' ''1'' ''tau'') []) ''s'' None =
     ([], Returned (Some \<lparr>ds_name = ''s'', ds_datatype = 1, ds_classtype = 1,
                       ds_treename = ''tau'', ds_weight = 1, ds_files = []\<rparr>))"
    by (simp add: example_no_subdirs)
  from sample_codes_from_tables [OF g] g show ?thesis by simp
qed

text \<open>
  C10.  For a DATA sample (directory and metadata file present, metadata read with the
  type \<open>DATA\<close> and a class of the table) and an empty list of period labels,
  \<open>get_sample\<close> returns a Dataset whose list of files is empty and whose name is the
  sample name; the only lines printed are the warnings for the directories whose names
  do not match.
\<close>

theorem empty_period_list_gives_no_files:
  assumes "isdir e (base_of e name)"
    and "isfile e (metafile_of e name)"
    and "read_meta e (metafile_of e name) = Inr (''DATA'', classname, weight, treename)"
    and "map_of classes classname = Some classtype"
  shows "get_sample e name (Some []) =
     (map invalid_name_warning
        (filter (\<lambda>d. re_match datapattern (basename d) = None) (actualdirs_of e name)),
      Returned (Some \<lparr>ds_name = name, ds_datatype = 0, ds_classtype = classtype,
                  ds_treename = treename, ds_weight = weight, ds_files = []\<rparr>))"
proof -
  have "map_of types ''DATA'' = Some 0" by (simp add: types_def)
  from get_sample_classified [OF assms this, of "Some []"] show ?thesis
    by (simp add: data_loop_empty_periods suffixed_def)
qed

theorem empty_period_list_gives_no_files_witness:
  "get_sample (example_env (meta_doc ''data'' ''signal'' ''1'' ''tau'') [(run153000, [''a.root''])])
      ''s'' (Some []) =
     ([], Returned (Some \<lparr>ds_name = ''s'', ds_datatype = 0, ds_classtype = 1,
                       ds_treename = ''tau'', ds_weight = 1, ds_files = []\<rparr>))"
proof -
  have 1: "map_of classes (upper ''signal'') = Some 1" by (simp add: upper_examples classes_def)
  have 2: "read_meta (example_env (meta_doc ''data'' ''signal'' ''1'' ''tau'') [(run153000, [''a.root''])])
     (metafile_of (example_env (meta_doc ''data'' ''signal'' ''1'' ''tau'') [(run153000, [''a.root''])]) ''s'')
       = Inr (''DATA'', upper ''signal'', 1, ''tau'')"
    by (simp add: example_read_meta upper_examples)
  from empty_period_list_gives_no_files [OF example_isdir example_isfile 2 1]
  show ?thesis
    by (simp add: example_one_subdir basename_join example_names run153000_match)
qed

end
